theory Spec2Isabelle
  imports Complex_Main "HOL-Library.Sublist" "HOL-Library.Log_Nat"
begin

section \<open>Python values\<close>

subsection \<open>Exceptions\<close>

text \<open>The classes of the exceptions the modelled code can raise.\<close>

datatype py_error = ValueError | TypeError | AttributeError | OverflowError | IndexError

subsection \<open>Floats\<close>

text \<open>
  A Python \<^verbatim>\<open>float\<close> is an IEEE 754 binary64 value. A finite one is modelled by the
  rational number it denotes; the three special values are constructors of their own.
  The two zeros are identified: they compare equal in Python, and only division,
  \<^verbatim>\<open>copysign\<close> and printing tell them apart, none of which the scoring code uses.
\<close>

datatype pyfloat = Fin rat | PInf | NInf | NaN

text \<open>
  \<^verbatim>\<open>x > n\<close> for a float \<^verbatim>\<open>x\<close> and an integer \<^verbatim>\<open>n\<close>: Python compares the two exactly
  (no conversion of \<^verbatim>\<open>n\<close> to a float); every comparison with NaN is false.
\<close>

fun float_gt_int :: "pyfloat \<Rightarrow> int \<Rightarrow> bool" where
  "float_gt_int (Fin q) n = (of_int n < q)"
| "float_gt_int PInf n = True"
| "float_gt_int NInf n = False"
| "float_gt_int NaN n = False"

text \<open>Rounding to the nearest integer, a tie going to the even one.\<close>

definition round_half_even :: "rat \<Rightarrow> int" where
  "round_half_even q =
     (let f = \<lfloor>q\<rfloor>; d = q - of_int f
      in if d < 1 / 2 then f else if 1 / 2 < d then f + 1 else if even f then f else f + 1)"

text \<open>
  The binary exponent of a positive rational \<open>q\<close>: the \<open>e\<close> with
  \<open>2 powi e \<le> q\<close> and \<open>q < 2 powi (e + 1)\<close>, computed from the bit lengths of numerator
  and denominator.
\<close>

definition log2_floor :: "rat \<Rightarrow> int" where
  "log2_floor q =
     (let (a, b) = quotient_of q; d = bitlen a - bitlen b
      in if 2 powi d \<le> q then d else d - 1)"

text \<open>
  The binary64 value of an exact result, in the default rounding mode (to nearest, ties
  to even): the significand has 53 bits, the exponent of the last bit is at least
  \<open>-1074\<close> (below \<open>2 powi (-1022)\<close> the values are subnormal), and a result that
  rounds to \<open>2 powi 1024\<close> or beyond is an infinity.
\<close>

definition rnd :: "rat \<Rightarrow> pyfloat" where
  "rnd q =
     (if q = 0 then Fin 0
      else let e = max (log2_floor \<bar>q\<bar> - 52) (- 1074);
               r = of_int (round_half_even (q / 2 powi e)) * 2 powi e
           in if 2 powi 1024 \<le> \<bar>r\<bar> then (if 0 < q then PInf else NInf) else Fin r)"

text \<open>A float literal of the source, such as \<^verbatim>\<open>0.05\<close>: the nearest binary64 value.\<close>

definition float_literal :: "rat \<Rightarrow> pyfloat" where
  "float_literal q = rnd q"

text \<open>\<^verbatim>\<open>x * y\<close> and \<^verbatim>\<open>x + y\<close> on floats; neither raises.\<close>

fun fmul :: "pyfloat \<Rightarrow> pyfloat \<Rightarrow> pyfloat" where
  "fmul (Fin a) (Fin b) = rnd (a * b)"
| "fmul NaN y = NaN"
| "fmul x NaN = NaN"
| "fmul (Fin a) PInf = (if a = 0 then NaN else if 0 < a then PInf else NInf)"
| "fmul (Fin a) NInf = (if a = 0 then NaN else if 0 < a then NInf else PInf)"
| "fmul PInf (Fin b) = (if b = 0 then NaN else if 0 < b then PInf else NInf)"
| "fmul NInf (Fin b) = (if b = 0 then NaN else if 0 < b then NInf else PInf)"
| "fmul PInf PInf = PInf"
| "fmul PInf NInf = NInf"
| "fmul NInf PInf = NInf"
| "fmul NInf NInf = PInf"

fun fadd :: "pyfloat \<Rightarrow> pyfloat \<Rightarrow> pyfloat" where
  "fadd (Fin a) (Fin b) = rnd (a + b)"
| "fadd NaN y = NaN"
| "fadd x NaN = NaN"
| "fadd PInf NInf = NaN"
| "fadd NInf PInf = NaN"
| "fadd PInf y = PInf"
| "fadd NInf y = NInf"
| "fadd x PInf = PInf"
| "fadd x NInf = NInf"

text \<open>
  The conversion of an integer operand to a float: correctly rounded, and
  \<^verbatim>\<open>OverflowError\<close> when the integer is too large for a finite float.
\<close>

definition int_to_float :: "int \<Rightarrow> py_error + pyfloat" where
  "int_to_float n = (case rnd (of_int n) of Fin q \<Rightarrow> Inr (Fin q) | _ \<Rightarrow> Inl OverflowError)"

text \<open>\<^verbatim>\<open>n * w\<close> for an integer \<^verbatim>\<open>n\<close> and a float \<^verbatim>\<open>w\<close>.\<close>

definition int_times_float :: "int \<Rightarrow> pyfloat \<Rightarrow> py_error + pyfloat" where
  "int_times_float n w = (case int_to_float n of Inl e \<Rightarrow> Inl e | Inr x \<Rightarrow> Inr (fmul x w))"

text \<open>
  \<^verbatim>\<open>round(x, 1)\<close> on a float: the exact value of \<^verbatim>\<open>x\<close> is rounded to one decimal,
  ties to even, and the decimal is converted back to the nearest float. An infinity or
  NaN is returned as it is.
\<close>

definition py_round1 :: "pyfloat \<Rightarrow> py_error + pyfloat" where
  "py_round1 x =
     (case x of
        Fin q \<Rightarrow> (case rnd (of_int (round_half_even (q * 10)) / 10) of
                    Fin r \<Rightarrow> Inr (Fin r)
                  | _ \<Rightarrow> Inl OverflowError)
      | _ \<Rightarrow> Inr x)"

subsection \<open>Text\<close>

text \<open>
  Text that contains characters beyond Latin-1 (the Chinese literals of the source, the
  answers of the language model) is a list of Unicode code points.
\<close>

type_synonym unicode = "nat list"

text \<open>An ASCII literal of the source as a list of code points.\<close>

definition ascii :: "string \<Rightarrow> unicode" where
  "ascii s = map of_char s"

section \<open>Scoring functions of \<^verbatim>\<open>src/analyzer.py\<close>\<close>

subsection \<open>Size bucket\<close>

text \<open>
  \<^verbatim>\<open>_size_category_and_score(additions, deletions)\<close>: Python integers are unbounded,
  so both arguments are \<^typ>\<open>int\<close>. The two tests are written in the order of the source.
\<close>

definition size_category_and_score :: "int \<Rightarrow> int \<Rightarrow> string \<times> int" where
  "size_category_and_score additions deletions =
     (let lines = additions + deletions
      in if lines < 50 then (''small'', 5)
         else if lines \<le> 200 then (''medium'', 7)
         else (''large'', 9))"

subsection \<open>Rating\<close>

text \<open>
  The three labels \<^verbatim>\<open>_rating\<close> returns, as code points: U+4F18 U+79C0 (excellent),
  U+826F U+597D (good) and U+4E00 U+822C (fair).
\<close>

definition rating_excellent :: unicode where
  "rating_excellent = [0x4F18, 0x79C0]"

definition rating_good :: unicode where
  "rating_good = [0x826F, 0x597D]"

definition rating_fair :: unicode where
  "rating_fair = [0x4E00, 0x822C]"

definition rating :: "pyfloat \<Rightarrow> unicode" where
  "rating total_score =
     (if float_gt_int total_score 80 then rating_excellent
      else if float_gt_int total_score 60 then rating_good
      else rating_fair)"

subsection \<open>Composite score\<close>

text \<open>
  The dictionary \<^verbatim>\<open>weights\<close> of \<^verbatim>\<open>_calc_total_score\<close>, one constant for each key.
\<close>

definition weight_type :: pyfloat where "weight_type = float_literal (5 / 100)"
definition weight_size :: pyfloat where "weight_size = float_literal (5 / 100)"
definition weight_code :: pyfloat where "weight_code = float_literal (15 / 100)"
definition weight_test :: pyfloat where "weight_test = float_literal (15 / 100)"
definition weight_doc :: pyfloat where "weight_doc = float_literal (15 / 100)"
definition weight_security :: pyfloat where "weight_security = float_literal (15 / 100)"
definition weight_merge :: pyfloat where "weight_merge = float_literal (15 / 100)"
definition weight_collab :: pyfloat where "weight_collab = float_literal (15 / 100)"

text \<open>
  One statement \<^verbatim>\<open>total += score * 10 * weights[key]\<close>: the integer \<^verbatim>\<open>score * 10\<close> is
  converted to a float, multiplied by the weight, and added to the running total.
\<close>

definition add_term :: "py_error + pyfloat \<Rightarrow> int \<Rightarrow> pyfloat \<Rightarrow> py_error + pyfloat" where
  "add_term tot score w =
     (case tot of
        Inl e \<Rightarrow> Inl e
      | Inr t \<Rightarrow> (case int_times_float (score * 10) w of Inl e \<Rightarrow> Inl e | Inr x \<Rightarrow> Inr (fadd t x)))"

text \<open>\<^verbatim>\<open>_calc_total_score\<close>: the eight statements in the order of the source, then \<^verbatim>\<open>round(total, 1)\<close>.\<close>

definition calc_total_score ::
  "int \<Rightarrow> int \<Rightarrow> int \<Rightarrow> int \<Rightarrow> int \<Rightarrow> int \<Rightarrow> int \<Rightarrow> int \<Rightarrow> py_error + pyfloat" where
  "calc_total_score type_score size_score code_quality_score test_coverage_score
     doc_maintain_score compliance_security_score merge_history_score collaboration_score =
     (let t0 = Inr (float_literal 0);
          t1 = add_term t0 type_score weight_type;
          t2 = add_term t1 size_score weight_size;
          t3 = add_term t2 code_quality_score weight_code;
          t4 = add_term t3 test_coverage_score weight_test;
          t5 = add_term t4 doc_maintain_score weight_doc;
          t6 = add_term t5 compliance_security_score weight_security;
          t7 = add_term t6 merge_history_score weight_merge;
          t8 = add_term t7 collaboration_score weight_collab
      in case t8 of Inl e \<Rightarrow> Inl e | Inr t \<Rightarrow> py_round1 t)"

text \<open>
  The composite score in the words of the specification: every input is multiplied by 10
  and by its weight, the eight terms are summed, and the sum is rounded to one decimal
  place; all of it in exact arithmetic.
\<close>

definition round1 :: "rat \<Rightarrow> rat" where
  "round1 x = of_int (round_half_even (x * 10)) / 10"

definition composite_score_spec ::
  "int \<Rightarrow> int \<Rightarrow> int \<Rightarrow> int \<Rightarrow> int \<Rightarrow> int \<Rightarrow> int \<Rightarrow> int \<Rightarrow> rat" where
  "composite_score_spec type_score size_score code_quality test_coverage doc_maintain
     compliance_security merge_history collaboration =
     round1 (of_int type_score * 10 * (5 / 100) + of_int size_score * 10 * (5 / 100) +
             of_int code_quality * 10 * (15 / 100) + of_int test_coverage * 10 * (15 / 100) +
             of_int doc_maintain * 10 * (15 / 100) + of_int compliance_security * 10 * (15 / 100) +
             of_int merge_history * 10 * (15 / 100) + of_int collaboration * 10 * (15 / 100))"

section \<open>Reference cleaning of \<^verbatim>\<open>src/analyzer.py\<close>\<close>

subsection \<open>Characters\<close>

text \<open>
  \<^verbatim>\<open>_clean_references\<close> takes a Python \<^verbatim>\<open>str\<close>, a sequence of Unicode code points, and
  its patterns are \<^verbatim>\<open>str\<close> patterns, so the classes \<^verbatim>\<open>\d\<close>, \<^verbatim>\<open>\w\<close>, \<^verbatim>\<open>\s\<close> and the
  case-insensitive comparison follow the Unicode character database of the interpreter.
  On U+0000 to U+00FF the tables are written out below. Beyond U+00FF the database is a
  parameter of the model: the properties \<^verbatim>\<open>str.isalpha\<close>, \<^verbatim>\<open>str.isdecimal\<close>,
  \<^verbatim>\<open>str.isdigit\<close>, \<^verbatim>\<open>str.isnumeric\<close>, \<^verbatim>\<open>str.isspace\<close> of a code point, and the relation
  \<open>ucd_ignorecase c p\<close>: under \<^verbatim>\<open>re.IGNORECASE\<close> the code point \<open>c\<close> of the text matches
  the lower-case ASCII letter \<open>p\<close> of a pattern.
\<close>

record ucd =
  ucd_alpha :: "nat \<Rightarrow> bool"
  ucd_decimal :: "nat \<Rightarrow> bool"
  ucd_digit :: "nat \<Rightarrow> bool"
  ucd_numeric :: "nat \<Rightarrow> bool"
  ucd_space :: "nat \<Rightarrow> bool"
  ucd_ignorecase :: "nat \<Rightarrow> nat \<Rightarrow> bool"

text \<open>\<^verbatim>\<open>\d\<close>: a decimal digit (\<^verbatim>\<open>str.isdecimal\<close>).\<close>

definition re_digit :: "ucd \<Rightarrow> nat \<Rightarrow> bool" where
  "re_digit db c = (if c < 0x100 then 0x30 \<le> c \<and> c \<le> 0x39 else ucd_decimal db c)"

text \<open>
  \<^verbatim>\<open>\w\<close>: alphanumeric or the underscore. A code point is alphanumeric
  (\<^verbatim>\<open>str.isalnum\<close>) when it is alphabetic, decimal, a digit or numeric.
\<close>

definition re_word :: "ucd \<Rightarrow> nat \<Rightarrow> bool" where
  "re_word db c =
     (if c < 0x100
      then (0x30 \<le> c \<and> c \<le> 0x39) \<or> (0x41 \<le> c \<and> c \<le> 0x5A) \<or> c = 0x5F \<or>
           (0x61 \<le> c \<and> c \<le> 0x7A) \<or> c = 0xAA \<or> c = 0xB2 \<or> c = 0xB3 \<or> c = 0xB5 \<or>
           c = 0xB9 \<or> c = 0xBA \<or> (0xBC \<le> c \<and> c \<le> 0xBE) \<or> (0xC0 \<le> c \<and> c \<le> 0xD6) \<or>
           (0xD8 \<le> c \<and> c \<le> 0xF6) \<or> 0xF8 \<le> c
      else ucd_alpha db c \<or> ucd_decimal db c \<or> ucd_digit db c \<or> ucd_numeric db c)"

text \<open>\<^verbatim>\<open>\s\<close>: whitespace (\<^verbatim>\<open>str.isspace\<close>).\<close>

definition re_space :: "ucd \<Rightarrow> nat \<Rightarrow> bool" where
  "re_space db c =
     (if c < 0x100
      then (0x09 \<le> c \<and> c \<le> 0x0D) \<or> (0x1C \<le> c \<and> c \<le> 0x20) \<or> c = 0x85 \<or> c = 0xA0
      else ucd_space db c)"

text \<open>
  A letter of a pattern under \<^verbatim>\<open>re.IGNORECASE\<close>. The letter \<open>p\<close> is a lower-case ASCII
  letter; a code point up to U+00FF matches when its lower case is \<open>p\<close>.
\<close>

definition latin1_lower :: "nat \<Rightarrow> nat" where
  "latin1_lower c =
     (if (0x41 \<le> c \<and> c \<le> 0x5A) \<or> (0xC0 \<le> c \<and> c \<le> 0xD6) \<or> (0xD8 \<le> c \<and> c \<le> 0xDE)
      then c + 32 else c)"

definition re_ignorecase :: "ucd \<Rightarrow> nat \<Rightarrow> nat \<Rightarrow> bool" where
  "re_ignorecase db p c = (if c < 0x100 then latin1_lower c = p else ucd_ignorecase db c p)"

subsection \<open>The six patterns\<close>

text \<open>
  A matcher stands for one compiled pattern together with its replacement template: given
  the text from some position on, it says whether the pattern matches at that position
  and, if so, returns the expanded replacement and the text after the match.

  Every pattern of \<^verbatim>\<open>_clean_references\<close> is a sequence of literals and greedy
  \<^verbatim>\<open>\w+\<close>, \<^verbatim>\<open>\s+\<close>, \<^verbatim>\<open>\d+\<close>, and what follows each repetition starts with a character
  outside its class (\<^verbatim>\<open>#\<close> after \<^verbatim>\<open>\w+\<close> and \<^verbatim>\<open>\s+\<close>, the letter \<^verbatim>\<open>r\<close> after the
  first \<^verbatim>\<open>\s+\<close> of the fifth pattern, the end of the pattern after \<^verbatim>\<open>\d+\<close>). So the
  engine's backtracking into a shorter repetition can never succeed, and the match at a
  position is the one with every repetition maximal.
\<close>

type_synonym matcher = "unicode \<Rightarrow> (unicode \<times> unicode) option"

text \<open>One or more characters of a class, as many as there are.\<close>

definition many1 :: "(nat \<Rightarrow> bool) \<Rightarrow> unicode \<Rightarrow> (unicode \<times> unicode) option" where
  "many1 P s = (if takeWhile P s = [] then None else Some (takeWhile P s, dropWhile P s))"

text \<open>A literal word under \<^verbatim>\<open>re.IGNORECASE\<close>, given in lower case.\<close>

fun lit_ci :: "ucd \<Rightarrow> unicode \<Rightarrow> unicode \<Rightarrow> unicode option" where
  "lit_ci db [] s = Some s"
| "lit_ci db (p # ps) [] = None"
| "lit_ci db (p # ps) (c # cs) = (if re_ignorecase db p c then lit_ci db ps cs else None)"

text \<open>Words, each followed by \<^verbatim>\<open>\s+\<close>: \<^verbatim>\<open>issue\s+\<close>, \<^verbatim>\<open>pull\s+request\s+\<close>.\<close>

fun words_ci :: "ucd \<Rightarrow> unicode list \<Rightarrow> unicode \<Rightarrow> unicode option" where
  "words_ci db [] s = Some s"
| "words_ci db (w # ws) s =
     (case lit_ci db w s of
        None \<Rightarrow> None
      | Some r \<Rightarrow>
          (case many1 (re_space db) r of None \<Rightarrow> None | Some (sp, r') \<Rightarrow> words_ci db ws r'))"

text \<open>\<^verbatim>\<open>#(\d+)\<close>, the tail of all six patterns; the group is returned.\<close>

definition hash_digits :: "ucd \<Rightarrow> unicode \<Rightarrow> (unicode \<times> unicode) option" where
  "hash_digits db s =
     (case s of [] \<Rightarrow> None | c # r \<Rightarrow> if c = 0x23 then many1 (re_digit db) r else None)"

text \<open>\<^verbatim>\<open>(r'(\w+)#(\d+)', r'\1-\2')\<close>\<close>

definition pat_word_ref :: "ucd \<Rightarrow> matcher" where
  "pat_word_ref db s =
     (case many1 (re_word db) s of
        None \<Rightarrow> None
      | Some (w, r) \<Rightarrow>
          (case hash_digits db r of
             None \<Rightarrow> None
           | Some (d, rest) \<Rightarrow> Some (w @ ascii ''-'' @ d, rest)))"

text \<open>\<^verbatim>\<open>(r'#(\d+)', r'Item-\1')\<close>\<close>

definition pat_item :: "ucd \<Rightarrow> matcher" where
  "pat_item db s =
     (case hash_digits db s of
        None \<Rightarrow> None
      | Some (d, rest) \<Rightarrow> Some (ascii ''Item-'' @ d, rest))"

text \<open>
  The four case-insensitive patterns, such as
  \<^verbatim>\<open>(r'pull\s+request\s+#(\d+)', r'PR-\1', re.IGNORECASE)\<close>.
\<close>

definition pat_keyword :: "ucd \<Rightarrow> string list \<Rightarrow> string \<Rightarrow> matcher" where
  "pat_keyword db ws label s =
     (case words_ci db (map ascii ws) s of
        None \<Rightarrow> None
      | Some r \<Rightarrow>
          (case hash_digits db r of
             None \<Rightarrow> None
           | Some (d, rest) \<Rightarrow> Some (ascii label @ ascii ''-'' @ d, rest)))"

subsection \<open>Substitution\<close>

text \<open>
  \<^verbatim>\<open>re.sub\<close>: scan from the left; where the pattern matches, emit the replacement and go
  on after the match; elsewhere copy one character and try at the next position. None
  of the six patterns matches the empty string, so a match always consumes text; the
  function copies a character also for a matcher that would not.
\<close>

function re_sub :: "matcher \<Rightarrow> unicode \<Rightarrow> unicode" where
  "re_sub m [] = []"
| "re_sub m (c # cs) =
     (case m (c # cs) of
        None \<Rightarrow> c # re_sub m cs
      | Some (rep, rest) \<Rightarrow>
          if length rest \<le> length cs then rep @ re_sub m rest else c # re_sub m cs)"
  by pat_completeness auto
termination
  by (relation "measure (\<lambda>(m, s). length s)") auto

text \<open>The list \<^verbatim>\<open>patterns\<close> of \<^verbatim>\<open>_clean_references\<close>, in the order of the source.\<close>

definition patterns :: "ucd \<Rightarrow> matcher list" where
  "patterns db =
     [pat_word_ref db, pat_item db, pat_keyword db [''issue''] ''Issue'',
      pat_keyword db [''pr''] ''PR'', pat_keyword db [''pull'', ''request''] ''PR'',
      pat_keyword db [''discussion''] ''Discussion'']"

text \<open>
  \<^verbatim>\<open>_clean_references\<close>: the loop applies the patterns one after the other, each to the
  result of the one before.
\<close>

definition clean_references :: "ucd \<Rightarrow> unicode \<Rightarrow> unicode" where
  "clean_references db text =
     foldl (\<lambda>cleaned pattern. re_sub pattern cleaned) text (patterns db)"

text \<open>
  Three predicates used to state what the function does: the text starts with a digit;
  the text starts with \<^verbatim>\<open>#\<close> and a digit; no \<^verbatim>\<open>#\<close> of the text is directly followed
  by a digit.
\<close>

fun starts_digit :: "ucd \<Rightarrow> unicode \<Rightarrow> bool" where
  "starts_digit db [] = False"
| "starts_digit db (c # s) = re_digit db c"

fun starts_hash_digit :: "ucd \<Rightarrow> unicode \<Rightarrow> bool" where
  "starts_hash_digit db [] = False"
| "starts_hash_digit db (c # s) = (c = 0x23 \<and> starts_digit db s)"

fun hash_digit_free :: "ucd \<Rightarrow> unicode \<Rightarrow> bool" where
  "hash_digit_free db [] = True"
| "hash_digit_free db (c # s) = ((c = 0x23 \<longrightarrow> \<not> starts_digit db s) \<and> hash_digit_free db s)"

section \<open>The time-window partitioner of \<^verbatim>\<open>src/main.py\<close>\<close>

subsection \<open>Records and timestamps\<close>

text \<open>
  A raw issue (or discussion) is a dictionary. The partitioner reads three of its keys and
  writes a fourth; all other keys are the \<open>payload\<close>. \<open>None\<close> is an absent key (or the
  value \<^verbatim>\<open>None\<close>). Equality of records is equality of dictionaries.
\<close>

record 'a raw_record =
  number :: "int option"
  created_at :: "string option"
  updated_at :: "string option"
  created_in_period :: "bool option"
  payload :: 'a

text \<open>
  What \<^verbatim>\<open>datetime.fromisoformat\<close> returns: a datetime with an offset, which denotes an
  instant (here in microseconds since the epoch), or a naive one. The library function
  itself is a parameter of the model, \<open>None\<close> where it raises \<^verbatim>\<open>ValueError\<close>.
\<close>

datatype py_datetime = Aware int | Naive

type_synonym iso_parser = "string \<Rightarrow> py_datetime option"

text \<open>
  The period: \<^verbatim>\<open>period == "today"\<close>, \<^verbatim>\<open>period_start\<close> and \<^verbatim>\<open>period_end\<close>; the two bounds
  are datetimes in UTC.
\<close>

record period =
  today :: bool
  period_start :: int
  period_end :: int

text \<open>\<^verbatim>\<open>s.replace("Z", "+00:00")\<close>\<close>

definition replace_Z :: "string \<Rightarrow> string" where
  "replace_Z s = concat (map (\<lambda>c. if c = CHR ''Z'' then ''+00:00'' else [c]) s)"

text \<open>
  \<^verbatim>\<open>period_start <= d <= period_end\<close>, or \<^verbatim>\<open>period_start <= d < period_end\<close> when the
  period is not \<^verbatim>\<open>today\<close>. The bounds carry an offset, so the first comparison raises
  \<^verbatim>\<open>TypeError\<close> for a naive \<^verbatim>\<open>d\<close>.
\<close>

fun in_period :: "period \<Rightarrow> py_datetime \<Rightarrow> py_error + bool" where
  "in_period p Naive = Inl TypeError"
| "in_period p (Aware t) =
     Inr (if today p then period_start p \<le> t \<and> t \<le> period_end p
          else period_start p \<le> t \<and> t < period_end p)"

datatype bucket = Created | Updated

text \<open>
  The body of the \<^verbatim>\<open>try\<close> block for one record whose \<^verbatim>\<open>created_at\<close> is the non-empty
  string \<open>c\<close>: both timestamps are parsed, both tests are evaluated, then the record goes
  to \<^verbatim>\<open>created_issues\<close>, to \<^verbatim>\<open>updated_issues\<close> or to neither. \<^verbatim>\<open>updated_date != created_date\<close>
  never raises; a naive and an aware datetime are different.
\<close>

definition try_classify ::
  "iso_parser \<Rightarrow> period \<Rightarrow> string \<Rightarrow> string option \<Rightarrow> py_error + bucket option" where
  "try_classify parse p c upd =
     (case parse (replace_Z c) of
        None \<Rightarrow> Inl ValueError
      | Some created_date \<Rightarrow>
          (case (if upd = None \<or> upd = Some [] then Some created_date
                 else parse (replace_Z (the upd))) of
             None \<Rightarrow> Inl ValueError
           | Some updated_date \<Rightarrow>
               (case in_period p created_date of
                  Inl e \<Rightarrow> Inl e
                | Inr in_period_created \<Rightarrow>
                    (case in_period p updated_date of
                       Inl e \<Rightarrow> Inl e
                     | Inr in_upd \<Rightarrow>
                         (let in_period_updated = (in_upd \<and> updated_date \<noteq> created_date)
                          in Inr (if in_period_created then Some Created
                                  else if in_period_updated then Some Updated
                                  else None))))))"

text \<open>
  One turn of the first loop: a record without \<^verbatim>\<open>created_at\<close> is skipped, and
  \<^verbatim>\<open>except Exception: pass\<close> skips a record whose \<^verbatim>\<open>try\<close> block raised.
\<close>

definition bucket_of :: "iso_parser \<Rightarrow> period \<Rightarrow> 'a raw_record \<Rightarrow> bucket option" where
  "bucket_of parse p r =
     (case created_at r of
        None \<Rightarrow> None
      | Some c \<Rightarrow>
          if c = [] then None
          else (case try_classify parse p c (updated_at r) of
                  Inl e \<Rightarrow> None
                | Inr b \<Rightarrow> b))"

subsection \<open>Classification and merging\<close>

text \<open>
  The second loop writes into the dictionaries it is iterating over, and the same
  dictionaries are the elements of \<^verbatim>\<open>created_issues\<close>, which the membership test reads.
  So the objects are kept in a store, a list of dictionaries, and the lists of the
  program hold references: positions in the store. \<^verbatim>\<open>raw_issues\<close> is the list of all
  positions; the objects of a fetched page are pairwise different objects.
\<close>

type_synonym 'a store = "'a raw_record list"

definition created_issues :: "iso_parser \<Rightarrow> period \<Rightarrow> 'a store \<Rightarrow> nat list" where
  "created_issues parse p st =
     filter (\<lambda>i. bucket_of parse p (st ! i) = Some Created) [0..<length st]"

definition updated_issues :: "iso_parser \<Rightarrow> period \<Rightarrow> 'a store \<Rightarrow> nat list" where
  "updated_issues parse p st =
     filter (\<lambda>i. bucket_of parse p (st ! i) = Some Updated) [0..<length st]"

text \<open>
  \<^verbatim>\<open>issue in created_issues\<close>: some element is the same object, or an equal dictionary.
\<close>

definition py_in :: "'a store \<Rightarrow> nat \<Rightarrow> nat list \<Rightarrow> bool" where
  "py_in st i refs = list_ex (\<lambda>j. j = i \<or> st ! j = st ! i) refs"

text \<open>
  The deduplicating loop over \<^verbatim>\<open>created_issues + updated_issues\<close>. The state is the store,
  \<^verbatim>\<open>seen_numbers\<close> and \<^verbatim>\<open>filtered_issues\<close>. \<^verbatim>\<open>if issue_num and ...\<close> skips a record
  whose number is absent or zero. The right-hand side of the assignment is evaluated
  before the key is written.
\<close>

fun merge_loop ::
  "nat list \<Rightarrow> nat list \<Rightarrow> 'a store \<times> int set \<times> nat list \<Rightarrow> 'a store \<times> int set \<times> nat list" where
  "merge_loop [] created st = st"
| "merge_loop (i # refs) created (st, seen_numbers, filtered) =
     (case number (st ! i) of
        None \<Rightarrow> merge_loop refs created (st, seen_numbers, filtered)
      | Some issue_num \<Rightarrow>
          if issue_num \<noteq> 0 \<and> issue_num \<notin> seen_numbers
          then merge_loop refs created
                 (st[i := (st ! i)\<lparr>created_in_period := Some (py_in st i created)\<rparr>],
                  insert issue_num seen_numbers, filtered @ [i])
          else merge_loop refs created (st, seen_numbers, filtered))"

text \<open>
  The partitioner: the new value of \<^verbatim>\<open>raw_issues\<close>, read off the store after the loop.
\<close>

definition partition_issues :: "iso_parser \<Rightarrow> period \<Rightarrow> 'a store \<Rightarrow> 'a raw_record list" where
  "partition_issues parse p st =
     (let created = created_issues parse p st;
          updated = updated_issues parse p st;
          (st', seen_numbers, filtered) = merge_loop (created @ updated) created (st, {}, [])
      in map (\<lambda>i. st' ! i) filtered)"

text \<open>
  The same result written without a store, for the proofs: tag the created records,
  then the updated ones, and keep the first record of every non-zero number.
\<close>

definition tag :: "bool \<Rightarrow> 'a raw_record \<Rightarrow> 'a raw_record" where
  "tag b r = r\<lparr>created_in_period := Some b\<rparr>"

definition keeps :: "int set \<Rightarrow> 'a raw_record \<Rightarrow> bool" where
  "keeps seen r = (case number r of None \<Rightarrow> False | Some n \<Rightarrow> n \<noteq> 0 \<and> n \<notin> seen)"

fun dedup :: "int set \<Rightarrow> 'a raw_record list \<Rightarrow> 'a raw_record list" where
  "dedup seen [] = []"
| "dedup seen (r # rs) =
     (if keeps seen r then r # dedup (insert (the (number r)) seen) rs else dedup seen rs)"

text \<open>The positions the second loop keeps, and the numbers of a list of records.\<close>

fun kept :: "'a store \<Rightarrow> int set \<Rightarrow> nat list \<Rightarrow> nat list" where
  "kept st seen [] = []"
| "kept st seen (i # refs) =
     (if keeps seen (st ! i) then i # kept st (insert (the (number (st ! i))) seen) refs
      else kept st seen refs)"

definition numbers :: "'a raw_record list \<Rightarrow> int set" where
  "numbers rs = {n. Some n \<in> number ` set rs}"

text \<open>The two tests of the first loop, as predicates on a record.\<close>

definition is_created :: "iso_parser \<Rightarrow> period \<Rightarrow> 'a raw_record \<Rightarrow> bool" where
  "is_created parse p r = (bucket_of parse p r = Some Created)"

definition is_updated :: "iso_parser \<Rightarrow> period \<Rightarrow> 'a raw_record \<Rightarrow> bool" where
  "is_updated parse p r = (bucket_of parse p r = Some Updated)"

text \<open>
  \<^verbatim>\<open>in_period_created\<close> alone: the \<^verbatim>\<open>created_at\<close> of the record parses and lies in the
  period.
\<close>

definition created_in_window :: "iso_parser \<Rightarrow> period \<Rightarrow> 'a raw_record \<Rightarrow> bool" where
  "created_in_window parse p r =
     (case created_at r of
        None \<Rightarrow> False
      | Some c \<Rightarrow> (case parse (replace_Z c) of None \<Rightarrow> False | Some d \<Rightarrow> in_period p d = Inr True))"

subsection \<open>Example data\<close>

text \<open>
  A parser that knows four timestamps, a period and records without payload, for
  evaluating the partitioner on concrete lists.
\<close>

definition example_parser :: iso_parser where
  "example_parser s =
     (if s = ''2024-05-01T08:00:00+00:00'' then Some (Aware 100)
      else if s = ''2024-05-01T09:30:00+00:00'' then Some (Aware 200)
      else if s = ''2024-04-20T12:00:00+00:00'' then Some (Aware (-900))
      else if s = ''2024-05-01T09:30:00'' then Some Naive
      else None)"

definition example_period :: period where
  "example_period = \<lparr>today = False, period_start = 0, period_end = 1000\<rparr>"

definition example_record :: "int option \<Rightarrow> string option \<Rightarrow> string option \<Rightarrow> unit raw_record" where
  "example_record n c u =
     \<lparr>number = n, created_at = c, updated_at = u, created_in_period = None, payload = ()\<rparr>"

section \<open>The external scorer of \<^verbatim>\<open>src/qwen_client.py\<close>\<close>

subsection \<open>JSON values\<close>

text \<open>
  What \<^verbatim>\<open>json.loads\<close> returns. An object is a dictionary, kept as the list of its
  items; \<^verbatim>\<open>json.loads\<close> leaves one item for each key.
\<close>

datatype json =
    JNull
  | JBool bool
  | JInt int
  | JFloat pyfloat
  | JStr unicode
  | JArr "json list"
  | JObj "(unicode \<times> json) list"

text \<open>The two Chinese literals of the client, code point by code point.\<close>

definition msg_key_missing :: unicode where
  "msg_key_missing =
     ascii ''Qwen API key '' @
     [0x672A, 0x914D, 0x7F6E, 0xFF0C, 0x672A, 0x5B9E, 0x9645, 0x8C03, 0x7528, 0x6A21, 0x578B,
      0x3002]"

definition msg_call_failed :: unicode where
  "msg_call_failed = [0x8C03, 0x7528] @ ascii '' Qwen '' @ [0x5931, 0x8D25, 0xFF1A]"

subsection \<open>The client\<close>

text \<open>
  The fields of \<^verbatim>\<open>QwenClient\<close> that the three operations read or write. The constructor
  leaves \<^verbatim>\<open>None\<close> or a string in \<^verbatim>\<open>api_key\<close>. The entries of the request log are
  readings of \<^verbatim>\<open>time.time()\<close>, finite floats.
\<close>

record qwen_client =
  api_key :: "unicode option"
  max_requests_per_minute :: int
  request_timestamps :: "rat list"

text \<open>\<^verbatim>\<open>not self.api_key\<close>\<close>

definition key_missing :: "qwen_client \<Rightarrow> bool" where
  "key_missing c = (api_key c = None \<or> api_key c = Some [])"

text \<open>\<^verbatim>\<open>now - ts < 60\<close> on floats: the difference is rounded, the comparison is exact.\<close>

definition recent :: "rat \<Rightarrow> rat \<Rightarrow> bool" where
  "recent now ts =
     (case fadd (Fin now) (Fin (- ts)) of
        Fin d \<Rightarrow> d < 60
      | PInf \<Rightarrow> False
      | NInf \<Rightarrow> True
      | NaN \<Rightarrow> False)"

text \<open>
  \<^verbatim>\<open>_throttle\<close>. The two readings of the clock, \<open>now\<close> before the test and \<open>later\<close>
  after the sleep, come from the environment; the sleep itself has no other effect.
  The log is pruned first. If it is then at least as long as the limit, the code reads
  its first entry, which raises \<^verbatim>\<open>IndexError\<close> on an empty log: that is the case when
  the limit is zero or negative.
\<close>

definition throttle :: "qwen_client \<Rightarrow> rat \<Rightarrow> rat \<Rightarrow> py_error + qwen_client" where
  "throttle c now later =
     (let pruned = filter (recent now) (request_timestamps c);
          c' = c\<lparr>request_timestamps := pruned\<rparr>
      in if max_requests_per_minute c \<le> int (length pruned) \<and> pruned = []
         then Inl IndexError
         else Inr (c'\<lparr>request_timestamps := pruned @ [later]\<rparr>))"

text \<open>
  The \<^verbatim>\<open>try\<close> block of an operation posts the request, checks the status, decodes the
  body and returns \<^verbatim>\<open>json.loads(content)\<close>. What the outside world makes of it is an
  input of the model: either some statement of the block raises an exception, of which
  the handler only uses the text \<^verbatim>\<open>str(exc)\<close>, or the block returns a JSON value.
\<close>

datatype call_outcome = Raised unicode | Returned json

text \<open>The dictionary both branches of \<^verbatim>\<open>analyze_pr\<close> build, with its comment.\<close>

definition zero_scores :: "unicode \<Rightarrow> json" where
  "zero_scores comment =
     JObj [(ascii ''code_quality_score'', JInt 0),
           (ascii ''test_coverage_score'', JInt 0),
           (ascii ''doc_maintain_score'', JInt 0),
           (ascii ''compliance_security_score'', JInt 0),
           (ascii ''merge_history_score'', JInt 0),
           (ascii ''collaboration_score'', JInt 0),
           (ascii ''comment'', JStr comment)]"

definition summary_only :: "unicode \<Rightarrow> json" where
  "summary_only s = JObj [(ascii ''summary'', JStr s)]"

text \<open>
  The three operations. Each returns its result, or the exception it lets through,
  together with the client after the call. Without a key the operation returns at once;
  otherwise it throttles (outside the \<^verbatim>\<open>try\<close> block) and runs the \<^verbatim>\<open>try\<close> block.
\<close>

definition analyze_pr ::
  "qwen_client \<Rightarrow> rat \<Rightarrow> rat \<Rightarrow> call_outcome \<Rightarrow> (py_error + json) \<times> qwen_client" where
  "analyze_pr c now later outcome =
     (if key_missing c then (Inr (zero_scores msg_key_missing), c)
      else case throttle c now later of
             Inl e \<Rightarrow> (Inl e, c\<lparr>request_timestamps := filter (recent now) (request_timestamps c)\<rparr>)
           | Inr c' \<Rightarrow>
               (case outcome of
                  Returned v \<Rightarrow> (Inr v, c')
                | Raised exc \<Rightarrow> (Inr (zero_scores (msg_call_failed @ exc)), c')))"

definition analyze_discussion ::
  "qwen_client \<Rightarrow> rat \<Rightarrow> rat \<Rightarrow> call_outcome \<Rightarrow> (py_error + json) \<times> qwen_client" where
  "analyze_discussion c now later outcome =
     (if key_missing c then (Inr (summary_only msg_key_missing), c)
      else case throttle c now later of
             Inl e \<Rightarrow> (Inl e, c\<lparr>request_timestamps := filter (recent now) (request_timestamps c)\<rparr>)
           | Inr c' \<Rightarrow>
               (case outcome of
                  Returned v \<Rightarrow> (Inr v, c')
                | Raised exc \<Rightarrow> (Inr (summary_only (msg_call_failed @ exc)), c')))"

definition analyze_issue_summary ::
  "qwen_client \<Rightarrow> rat \<Rightarrow> rat \<Rightarrow> call_outcome \<Rightarrow> (py_error + json) \<times> qwen_client" where
  "analyze_issue_summary c now later outcome =
     (if key_missing c then (Inr (summary_only []), c)
      else case throttle c now later of
             Inl e \<Rightarrow> (Inl e, c\<lparr>request_timestamps := filter (recent now) (request_timestamps c)\<rparr>)
           | Inr c' \<Rightarrow>
               (case outcome of
                  Returned v \<Rightarrow> (Inr v, c')
                | Raised exc \<Rightarrow> (Inr (summary_only []), c')))"

text \<open>
  The text field of a placeholder: \<^verbatim>\<open>comment\<close> for a PR, \<^verbatim>\<open>summary\<close> otherwise.
\<close>

definition text_field :: "string \<Rightarrow> json \<Rightarrow> unicode option" where
  "text_field key v =
     (case v of
        JObj items \<Rightarrow> (case map_of items (ascii key) of Some (JStr s) \<Rightarrow> Some s | _ \<Rightarrow> None)
      | _ \<Rightarrow> None)"

text \<open>A client with a key and the default limit, for evaluating the operations.\<close>

definition example_client :: qwen_client where
  "example_client =
     \<lparr>api_key = Some (ascii ''sk-test''), max_requests_per_minute = 30, request_timestamps = []\<rparr>"

section \<open>The analysis assembler of \<^verbatim>\<open>src/analyzer.py\<close>\<close>

subsection \<open>Heuristic classification of a PR\<close>

text \<open>
  The title, the body and the label names are Python \<^verbatim>\<open>str\<close> values. Here a
  \<^typ>\<open>char\<close> stands for a code point from U+0000 to U+00FF; on this range \<^verbatim>\<open>str.lower\<close>
  is the table below and never changes the length.
\<close>

definition code_point :: "char \<Rightarrow> nat" where
  "code_point c = of_char c"

definition py_lower :: "char \<Rightarrow> char" where
  "py_lower c =
     (let n = code_point c
      in if (0x41 \<le> n \<and> n \<le> 0x5A) \<or> (0xC0 \<le> n \<and> n \<le> 0xD6) \<or> (0xD8 \<le> n \<and> n \<le> 0xDE)
         then char_of (n + 32) else c)"

text \<open>\<^verbatim>\<open>sub in s\<close> on strings, \<^verbatim>\<open>s.lower()\<close> and \<^verbatim>\<open>sep.join(parts)\<close>.\<close>

fun contains :: "string \<Rightarrow> string \<Rightarrow> bool" where
  "contains sub [] = (sub = [])"
| "contains sub (c # cs) = (prefix sub (c # cs) \<or> contains sub cs)"

definition lower :: "string \<Rightarrow> string" where
  "lower s = map py_lower s"

fun join :: "string \<Rightarrow> string list \<Rightarrow> string" where
  "join sep [] = []"
| "join sep [x] = x"
| "join sep (x # y # ys) = x @ sep @ join sep (y # ys)"

definition detect_pr_type :: "string \<Rightarrow> string \<Rightarrow> string list \<Rightarrow> string" where
  "detect_pr_type title body labels =
     (let text = lower (title @ [CHR 0x0A] @ body);
          label_text = lower (join '' '' labels)
      in if contains ''feat'' text \<or> contains ''feature'' text \<or> contains ''enhancement'' label_text
         then ''feat''
         else if contains ''fix'' text \<or> contains ''bug'' label_text then ''fix''
         else if contains ''refactor'' text \<or> contains ''opt'' text \<or> contains ''optimization'' text
         then ''opt''
         else if contains ''test'' label_text \<or> contains ''test'' text then ''test''
         else if contains ''doc'' label_text \<or> contains ''docs'' text then ''docs''
         else ''other'')"

text \<open>\<^verbatim>\<open>mapping.get(pr_type, 5)\<close>\<close>

definition type_score :: "string \<Rightarrow> int" where
  "type_score pr_type =
     (case map_of [(''feat'', 10), (''opt'', 8), (''fix'', 6), (''test'', 4), (''docs'', 5)] pr_type of
        None \<Rightarrow> 5
      | Some s \<Rightarrow> s)"

definition priority :: "string \<Rightarrow> string" where
  "priority pr_type =
     (if pr_type = ''feat'' then ''P1''
      else if pr_type = ''opt'' then ''P2''
      else if pr_type = ''fix'' \<or> pr_type = ''docs'' then ''P3''
      else if pr_type = ''test'' then ''P4''
      else ''P3'')"

subsection \<open>Reading the scores of the language model\<close>

text \<open>Sequencing of statements that may raise: the first exception ends the run.\<close>

definition and_then :: "py_error + 'a \<Rightarrow> ('a \<Rightarrow> py_error + 'b) \<Rightarrow> py_error + 'b" where
  "and_then m f = (case m of Inl e \<Rightarrow> Inl e | Inr x \<Rightarrow> f x)"

text \<open>The truth value of a JSON value, as the \<^verbatim>\<open>or\<close> in \<^verbatim>\<open>qwen_results.get(...) or {}\<close> takes it.\<close>

fun truthy :: "json \<Rightarrow> bool" where
  "truthy JNull = False"
| "truthy (JBool b) = b"
| "truthy (JInt n) = (n \<noteq> 0)"
| "truthy (JFloat x) = (x \<noteq> Fin 0)"
| "truthy (JStr s) = (s \<noteq> [])"
| "truthy (JArr xs) = (xs \<noteq> [])"
| "truthy (JObj items) = (items \<noteq> [])"

text \<open>
  \<^verbatim>\<open>qwen_data.get(key, default)\<close>. Only a dictionary has the method: on any other value
  the attribute lookup raises \<^verbatim>\<open>AttributeError\<close>.
\<close>

definition dict_get :: "json \<Rightarrow> unicode \<Rightarrow> json \<Rightarrow> py_error + json" where
  "dict_get d key dflt =
     (case d of
        JObj items \<Rightarrow> Inr (case map_of items key of None \<Rightarrow> dflt | Some v \<Rightarrow> v)
      | _ \<Rightarrow> Inl AttributeError)"

text \<open>
  The built-in \<^verbatim>\<open>int\<close> on a JSON value. An integer is returned as it is and a Boolean
  as 0 or 1; a finite float is truncated towards zero, an infinity raises
  \<^verbatim>\<open>OverflowError\<close> and NaN raises \<^verbatim>\<open>ValueError\<close>; \<^verbatim>\<open>None\<close>, a list and a dictionary
  raise \<^verbatim>\<open>TypeError\<close>. The parsing of a string is Python's and is a parameter of
  the model: \<open>int_of_str s\<close> is \<open>None\<close> where \<^verbatim>\<open>int(s)\<close> raises \<^verbatim>\<open>ValueError\<close>.
\<close>

fun py_int :: "(unicode \<Rightarrow> int option) \<Rightarrow> json \<Rightarrow> py_error + int" where
  "py_int int_of_str JNull = Inl TypeError"
| "py_int int_of_str (JBool b) = Inr (if b then 1 else 0)"
| "py_int int_of_str (JInt n) = Inr n"
| "py_int int_of_str (JFloat (Fin q)) = Inr (if 0 \<le> q then \<lfloor>q\<rfloor> else \<lceil>q\<rceil>)"
| "py_int int_of_str (JFloat PInf) = Inl OverflowError"
| "py_int int_of_str (JFloat NInf) = Inl OverflowError"
| "py_int int_of_str (JFloat NaN) = Inl ValueError"
| "py_int int_of_str (JStr s) = (case int_of_str s of None \<Rightarrow> Inl ValueError | Some n \<Rightarrow> Inr n)"
| "py_int int_of_str (JArr xs) = Inl TypeError"
| "py_int int_of_str (JObj items) = Inl TypeError"

text \<open>\<^verbatim>\<open>int(qwen_data.get(key, 0))\<close>\<close>

definition score_of :: "(unicode \<Rightarrow> int option) \<Rightarrow> json \<Rightarrow> string \<Rightarrow> py_error + int" where
  "score_of int_of_str qwen_data key =
     and_then (dict_get qwen_data (ascii key) (JInt 0)) (py_int int_of_str)"

subsection \<open>Records\<close>

text \<open>
  The detail record of a PR as the GitHub API delivers it, with the keys the assembler
  reads. \<open>None\<close> is the JSON \<^verbatim>\<open>null\<close>, which the code replaces by an empty string or
  by zero where it writes \<^verbatim>\<open>or ""\<close> and \<^verbatim>\<open>or 0\<close>. A label is given by its name.
\<close>

record raw_pr =
  pr_number :: int
  pr_title :: "string option"
  pr_body :: "string option"
  pr_state :: string
  pr_labels :: "string list"
  pr_created_at :: string
  pr_merged_at :: "string option"
  pr_login :: string
  pr_changed_files :: "int option"
  pr_additions :: "int option"
  pr_deletions :: "int option"
  pr_commits :: "int option"

text \<open>The dataclass \<^verbatim>\<open>PRAnalysis\<close>, field by field.\<close>

record pr_analysis =
  a_number :: int
  a_title :: "string option"
  a_state :: string
  a_labels :: "string list"
  a_created_at :: string
  a_merged_at :: "string option"
  a_author :: string
  a_changed_files :: int
  a_additions :: int
  a_deletions :: int
  a_commits :: int
  a_pr_type :: string
  a_size_category :: string
  a_priority :: string
  a_type_score :: int
  a_size_score :: int
  a_code_quality_score :: int
  a_test_coverage_score :: int
  a_doc_maintain_score :: int
  a_compliance_security_score :: int
  a_merge_history_score :: int
  a_collaboration_score :: int
  a_total_score :: pyfloat
  a_rating :: unicode
  a_qwen_comment :: unicode

text \<open>\<^verbatim>\<open>x or ""\<close> and \<^verbatim>\<open>x or 0\<close>\<close>

definition or_empty :: "string option \<Rightarrow> string" where
  "or_empty x = (case x of None \<Rightarrow> [] | Some s \<Rightarrow> s)"

definition or_zero :: "int option \<Rightarrow> int" where
  "or_zero x = (case x of None \<Rightarrow> 0 | Some n \<Rightarrow> n)"

subsection \<open>The assembler\<close>

text \<open>
  The body of the loop of \<^verbatim>\<open>analyze_pull_requests\<close> for one PR. \<open>qwen_results\<close> is the
  dictionary from PR numbers to the answers of the scorer, which are JSON values of any
  shape. Python's \<^verbatim>\<open>str\<close> on a JSON value is the parameter \<open>str_of\<close>; it does not raise.
  The statements are in the order of the source.
\<close>

definition analyze_pull_request ::
  "(unicode \<Rightarrow> int option) \<Rightarrow> (json \<Rightarrow> unicode) \<Rightarrow> (int \<times> json) list \<Rightarrow> raw_pr \<Rightarrow>
   py_error + pr_analysis" where
  "analyze_pull_request int_of_str str_of qwen_results pr =
     (let labels = pr_labels pr;
          pr_type = detect_pr_type (or_empty (pr_title pr)) (or_empty (pr_body pr)) labels;
          (size_category, size_score) =
            size_category_and_score (or_zero (pr_additions pr)) (or_zero (pr_deletions pr));
          qwen_data =
            (case map_of qwen_results (pr_number pr) of
               None \<Rightarrow> JObj []
             | Some v \<Rightarrow> if truthy v then v else JObj [])
      in and_then (score_of int_of_str qwen_data ''code_quality_score'') (\<lambda>code_quality_score.
         and_then (score_of int_of_str qwen_data ''test_coverage_score'') (\<lambda>test_coverage_score.
         and_then (score_of int_of_str qwen_data ''doc_maintain_score'') (\<lambda>doc_maintain_score.
         and_then (score_of int_of_str qwen_data ''compliance_security_score'')
           (\<lambda>compliance_security_score.
         and_then (score_of int_of_str qwen_data ''merge_history_score'') (\<lambda>merge_history_score.
         and_then (score_of int_of_str qwen_data ''collaboration_score'') (\<lambda>collaboration_score.
         and_then (dict_get qwen_data (ascii ''comment'') (JStr [])) (\<lambda>comment_value.
         and_then (calc_total_score (type_score pr_type) size_score code_quality_score
                     test_coverage_score doc_maintain_score compliance_security_score
                     merge_history_score collaboration_score) (\<lambda>total_score.
         Inr \<lparr>a_number = pr_number pr,
              a_title = pr_title pr,
              a_state = pr_state pr,
              a_labels = labels,
              a_created_at = pr_created_at pr,
              a_merged_at = pr_merged_at pr,
              a_author = pr_login pr,
              a_changed_files = or_zero (pr_changed_files pr),
              a_additions = or_zero (pr_additions pr),
              a_deletions = or_zero (pr_deletions pr),
              a_commits = or_zero (pr_commits pr),
              a_pr_type = pr_type,
              a_size_category = size_category,
              a_priority = priority pr_type,
              a_type_score = type_score pr_type,
              a_size_score = size_score,
              a_code_quality_score = code_quality_score,
              a_test_coverage_score = test_coverage_score,
              a_doc_maintain_score = doc_maintain_score,
              a_compliance_security_score = compliance_security_score,
              a_merge_history_score = merge_history_score,
              a_collaboration_score = collaboration_score,
              a_total_score = total_score,
              a_rating = rating total_score,
              a_qwen_comment = take 500 (str_of comment_value)\<rparr>)))))))))"

text \<open>
  \<^verbatim>\<open>analyze_pull_requests\<close>: the loop appends one analysis for each PR; an exception in
  the body leaves the function, and no list is returned.
\<close>

fun analyze_pull_requests ::
  "(unicode \<Rightarrow> int option) \<Rightarrow> (json \<Rightarrow> unicode) \<Rightarrow> raw_pr list \<Rightarrow> (int \<times> json) list \<Rightarrow>
   py_error + pr_analysis list" where
  "analyze_pull_requests int_of_str str_of [] qwen_results = Inr []"
| "analyze_pull_requests int_of_str str_of (pr # raw_pr_details) qwen_results =
     and_then (analyze_pull_request int_of_str str_of qwen_results pr) (\<lambda>analysis.
     and_then (analyze_pull_requests int_of_str str_of raw_pr_details qwen_results) (\<lambda>results.
     Inr (analysis # results)))"

text \<open>
  The PR of the end-to-end scenario of the specification, and the answer of a scorer
  that gives 7 on every dimension.
\<close>

definition example_pr :: raw_pr where
  "example_pr =
     \<lparr>pr_number = 42, pr_title = Some ''feat: add caching layer'', pr_body = None,
      pr_state = ''open'', pr_labels = [], pr_created_at = ''2024-05-01T08:00:00Z'',
      pr_merged_at = None, pr_login = ''octocat'', pr_changed_files = Some 4,
      pr_additions = Some 300, pr_deletions = Some 10, pr_commits = Some 2\<rparr>"

definition all_sevens :: json where
  "all_sevens =
     JObj [(ascii ''code_quality_score'', JInt 7),
           (ascii ''test_coverage_score'', JInt 7),
           (ascii ''doc_maintain_score'', JInt 7),
           (ascii ''compliance_security_score'', JInt 7),
           (ascii ''merge_history_score'', JInt 7),
           (ascii ''collaboration_score'', JInt 7),
           (ascii ''comment'', JStr (ascii ''solid''))]"

section \<open>Properties\<close>

subsection \<open>Rounding to binary64\<close>

lemma round_half_even_near: "\<bar>x - of_int m\<bar> < 1 / 2 \<Longrightarrow> round_half_even x = m"
proof -
  assume a: "\<bar>x - of_int m\<bar> < 1 / 2"
  show ?thesis
  proof (cases "of_int m \<le> x")
    case True
    with a have "\<lfloor>x\<rfloor> = m" by (intro floor_unique) auto
    with a True show ?thesis by (simp add: round_half_even_def Let_def)
  next
    case False
    with a have f: "\<lfloor>x\<rfloor> = m - 1" by (intro floor_unique) auto
    from a False have "1 / 2 < x - of_int (m - 1)" by simp
    with f show ?thesis by (simp add: round_half_even_def Let_def)
  qed
qed

lemma round_half_even_of_int [simp]: "round_half_even (of_int m) = m"
  by (rule round_half_even_near) simp

lemma log2_floor_bounds:
  assumes "0 < q"
  shows "2 powi (log2_floor q) \<le> q \<and> q < 2 powi (log2_floor q + 1)"
proof -
  obtain a b where ab: "quotient_of q = (a, b)" by (cases "quotient_of q")
  then have b: "0 < b" and q: "q = of_int a / of_int b"
    using quotient_of_denom_pos quotient_of_div by blast+
  with assms have a: "0 < a" by (simp add: zero_less_divide_iff)
  let ?d = "bitlen a - bitlen b"
  have la: "1 \<le> bitlen a" and lb: "1 \<le> bitlen b"
    using a b by (simp_all add: bitlen_alt_def)
  have pw: "(2::rat) powi k = of_int (2 ^ nat k)" if "0 \<le> k" for k
    using that by (simp add: power_int_def)
  have pa: "(2::rat) powi (bitlen a - 1) \<le> of_int a" "of_int a < (2::rat) powi (bitlen a)"
    using bitlen_bounds [OF a] la unfolding pw [of "bitlen a - 1"] pw [of "bitlen a"]
    by (simp_all only: of_int_le_iff of_int_less_iff pw)
  have pb: "(2::rat) powi (bitlen b - 1) \<le> of_int b" "of_int b < (2::rat) powi (bitlen b)"
    using bitlen_bounds [OF b] lb unfolding pw [of "bitlen b - 1"] pw [of "bitlen b"]
    by (simp_all only: of_int_le_iff of_int_less_iff pw)
  have pos: "0 < (2::rat) powi k" for k by simp
  have pd: "(2::rat) powi x / 2 powi y = 2 powi (x - y)" for x y
    by (rule power_int_diff [symmetric]) simp
  have "q < 2 powi (bitlen a) / 2 powi (bitlen b - 1)"
    unfolding q using pa(2) pb(1) a b pos [of "bitlen b - 1"]
    by (intro frac_less) (simp_all add: less_imp_le)
  also have "\<dots> = 2 powi (bitlen a - (bitlen b - 1))"
    by (rule pd)
  also have "bitlen a - (bitlen b - 1) = ?d + 1" by simp
  finally have up: "q < 2 powi (?d + 1)" .
  have "2 powi (bitlen a - 1) / 2 powi (bitlen b) < of_int a / (of_int b :: rat)"
    using pa(1) pb(2) a b pos [of "bitlen a - 1"]
    by (intro frac_less2) (simp_all add: less_imp_le)
  also have "2 powi (bitlen a - 1) / 2 powi (bitlen b) = (2::rat) powi (bitlen a - 1 - bitlen b)"
    by (rule pd)
  also have "bitlen a - 1 - bitlen b = ?d - 1" by simp
  finally have lo: "2 powi (?d - 1) < q" unfolding q .
  show ?thesis
  proof (cases "2 powi ?d \<le> q")
    case True
    then have "log2_floor q = ?d" by (simp add: log2_floor_def ab)
    with True up show ?thesis by simp
  next
    case False
    then have "log2_floor q = ?d - 1" by (simp add: log2_floor_def ab)
    with False lo show ?thesis by (simp add: less_imp_le)
  qed
qed

lemma log2_floor_unique:
  assumes "0 < q" and "2 powi L \<le> q" and "q < 2 powi (L + 1)"
  shows "log2_floor q = L"
proof -
  from log2_floor_bounds [OF assms(1)]
  have b: "2 powi (log2_floor q) \<le> q" "q < 2 powi (log2_floor q + 1)" by simp_all
  have inj: "x < y" if "(2::rat) powi x < 2 powi y" for x y
  proof (rule ccontr)
    assume "\<not> x < y"
    then have "(2::rat) powi y \<le> 2 powi x"
      by (intro power_int_increasing) simp_all
    with that show False by simp
  qed
  have "(2::rat) powi L < 2 powi (log2_floor q + 1)"
    using assms(2) b(2) by simp
  then have 1: "L < log2_floor q + 1"
    by (rule inj)
  have "(2::rat) powi (log2_floor q) < 2 powi (L + 1)"
    using assms(3) b(1) by simp
  then have 2: "log2_floor q < L + 1"
    by (rule inj)
  from 1 2 show ?thesis by simp
qed

lemma powi_less_imp_less: "(2::rat) powi x < 2 powi y \<Longrightarrow> x < y"
proof (rule ccontr)
  assume a: "(2::rat) powi x < 2 powi y" and "\<not> x < y"
  then have "(2::rat) powi y \<le> 2 powi x"
    by (intro power_int_increasing) simp_all
  with a show False by simp
qed

lemma rnd_pos:
  assumes "0 < q" and "e = max (log2_floor q - 52) (- 1074)"
    and "r = of_int (round_half_even (q / 2 powi e)) * 2 powi e"
    and "0 \<le> r" and "r < 2 powi 1024"
  shows "rnd q = Fin r"
proof -
  have a: "\<bar>q\<bar> = q" using assms(1) by simp
  have b: "\<bar>r\<bar> = r" using assms(4) by simp
  have c: "\<not> 2 powi 1024 \<le> r" using assms(5) by (simp only: not_le)
  have n: "q \<noteq> 0" using assms(1) by simp
  show ?thesis
    unfolding rnd_def Let_def a assms(2) [symmetric] assms(3) [symmetric] b
    using c n by (simp only: if_False)
qed

lemma rnd_near:
  assumes "0 < q" and "2 powi L \<le> q" and "q < 2 powi (L + 1)" and "- 1022 \<le> L"
    and "\<bar>q / 2 powi (L - 52) - of_int m\<bar> < 1 / 2"
    and "of_int m * 2 powi (L - 52) < (2::rat) powi 1024"
  shows "rnd q = Fin (of_int m * 2 powi (L - 52))"
proof (rule rnd_pos [OF assms(1), where e = "L - 52"])
  have l: "log2_floor q = L"
    using assms(1-3) by (simp add: log2_floor_unique)
  show "L - 52 = max (log2_floor q - 52) (- 1074)"
    using assms(4) by (simp add: l)
  have r: "round_half_even (q / 2 powi (L - 52)) = m"
    using assms(5) by (rule round_half_even_near)
  show "of_int m * 2 powi (L - 52) = of_int (round_half_even (q / 2 powi (L - 52))) * 2 powi (L - 52)"
    by (simp only: r)
  have "0 < q / 2 powi (L - 52)"
    using assms(1) by simp
  with assms(5) have "- 1 < (of_int m :: rat)" by linarith
  then have "0 \<le> m" by linarith
  then show "0 \<le> of_int m * (2::rat) powi (L - 52)" by simp
  show "of_int m * 2 powi (L - 52) < (2::rat) powi 1024" by (rule assms(6))
qed

lemma rnd_dyadic:
  assumes "0 < m" and "m < 2 ^ 53" and "j \<le> 1074"
  shows "rnd (of_int m / 2 ^ j) = Fin (of_int m / 2 ^ j)"
proof -
  define q :: rat where "q = of_int m / 2 ^ j"
  define e where "e = max (log2_floor q - 52) (- 1074)"
  have q: "0 < q" using assms(1) by (simp add: q_def)
  have qp: "q = of_int m * 2 powi (- int j)"
    by (simp add: q_def power_int_minus field_simps)
  have "(of_int m :: rat) < of_int (2 ^ 53)"
    using assms(2) by (simp only: of_int_less_iff)
  also have "\<dots> = 2 powi 53" by simp
  finally have m: "(of_int m :: rat) < 2 powi 53" .
  have "q < 2 powi 53 * 2 powi (- int j)"
    unfolding qp using m by (intro mult_strict_right_mono) simp_all
  also have "\<dots> = 2 powi (53 + - int j)"
    by (rule power_int_add [symmetric]) simp
  also have "53 + - int j = 53 - int j" by simp
  finally have up: "q < 2 powi (53 - int j)" .
  from log2_floor_bounds [OF q] have "2 powi (log2_floor q) \<le> q"
    by simp
  with up have "(2::rat) powi (log2_floor q) < 2 powi (53 - int j)" by simp
  then have "log2_floor q < 53 - int j" by (rule powi_less_imp_less)
  with assms(3) have e: "e \<le> - int j" by (simp add: e_def)
  define k where "k = nat (- int j - e)"
  have ke: "- int j = int k + e" using e by (simp add: k_def)
  have "(2::rat) powi (int k + e) = 2 powi (int k) * 2 powi e"
    by (rule power_int_add) simp
  then have pj: "2 powi (- int j) = (2::rat) ^ k * 2 powi e"
    by (simp add: ke)
  have qe: "q = of_int (m * 2 ^ k) * 2 powi e"
    unfolding qp pj by simp
  have "q / 2 powi e = of_int (m * 2 ^ k)"
    by (subst qe) simp
  then have r: "q = of_int (round_half_even (q / 2 powi e)) * 2 powi e"
    using qe by (simp only: round_half_even_of_int)
  have "q \<le> of_int m / 1"
    unfolding q_def using assms(1) by (intro divide_left_mono) simp_all
  also have "\<dots> < 2 powi 53"
    using m by simp
  also have "\<dots> < 2 powi 1024"
    by (rule power_int_strict_increasing) simp_all
  finally have big: "q < 2 powi 1024" .
  have "rnd q = Fin q"
    using q e_def r _ big by (rule rnd_pos) (simp add: q less_imp_le)
  then show ?thesis by (simp only: q_def)
qed

lemma float_literal_5: "float_literal (5 / 100) = Fin (3602879701896397 / 72057594037927936)"
proof -
  have "rnd (5 / 100) = Fin (of_int 7205759403792794 * 2 powi (- 5 - 52))"
    by (rule rnd_near) simp_all
  then show ?thesis by (simp add: float_literal_def)
qed

lemma rnd_times_5:
  "rnd (10 * (3602879701896397 / 72057594037927936)) = Fin (1 / 2)"
  "rnd (20 * (3602879701896397 / 72057594037927936)) = Fin (1)"
  "rnd (30 * (3602879701896397 / 72057594037927936)) = Fin (3 / 2)"
  "rnd (40 * (3602879701896397 / 72057594037927936)) = Fin (2)"
  "rnd (50 * (3602879701896397 / 72057594037927936)) = Fin (5 / 2)"
  "rnd (60 * (3602879701896397 / 72057594037927936)) = Fin (3)"
  "rnd (70 * (3602879701896397 / 72057594037927936)) = Fin (7 / 2)"
  "rnd (80 * (3602879701896397 / 72057594037927936)) = Fin (4)"
  "rnd (90 * (3602879701896397 / 72057594037927936)) = Fin (9 / 2)"
  "rnd (100 * (3602879701896397 / 72057594037927936)) = Fin (5)"
proof -
  have "rnd (10 * (3602879701896397 / 72057594037927936)) = Fin (of_int 4503599627370496 * 2 powi (- 1 - 52))"
    by (rule rnd_near) simp_all
  then show "rnd (10 * (3602879701896397 / 72057594037927936)) = Fin (1 / 2)" by simp
  have "rnd (20 * (3602879701896397 / 72057594037927936)) = Fin (of_int 4503599627370496 * 2 powi (0 - 52))"
    by (rule rnd_near) simp_all
  then show "rnd (20 * (3602879701896397 / 72057594037927936)) = Fin (1)" by simp
  have "rnd (30 * (3602879701896397 / 72057594037927936)) = Fin (of_int 6755399441055744 * 2 powi (0 - 52))"
    by (rule rnd_near) simp_all
  then show "rnd (30 * (3602879701896397 / 72057594037927936)) = Fin (3 / 2)" by simp
  have "rnd (40 * (3602879701896397 / 72057594037927936)) = Fin (of_int 4503599627370496 * 2 powi (1 - 52))"
    by (rule rnd_near) simp_all
  then show "rnd (40 * (3602879701896397 / 72057594037927936)) = Fin (2)" by simp
  have "rnd (50 * (3602879701896397 / 72057594037927936)) = Fin (of_int 5629499534213120 * 2 powi (1 - 52))"
    by (rule rnd_near) simp_all
  then show "rnd (50 * (3602879701896397 / 72057594037927936)) = Fin (5 / 2)" by simp
  have "rnd (60 * (3602879701896397 / 72057594037927936)) = Fin (of_int 6755399441055744 * 2 powi (1 - 52))"
    by (rule rnd_near) simp_all
  then show "rnd (60 * (3602879701896397 / 72057594037927936)) = Fin (3)" by simp
  have "rnd (70 * (3602879701896397 / 72057594037927936)) = Fin (of_int 7881299347898368 * 2 powi (1 - 52))"
    by (rule rnd_near) simp_all
  then show "rnd (70 * (3602879701896397 / 72057594037927936)) = Fin (7 / 2)" by simp
  have "rnd (80 * (3602879701896397 / 72057594037927936)) = Fin (of_int 4503599627370496 * 2 powi (2 - 52))"
    by (rule rnd_near) simp_all
  then show "rnd (80 * (3602879701896397 / 72057594037927936)) = Fin (4)" by simp
  have "rnd (90 * (3602879701896397 / 72057594037927936)) = Fin (of_int 5066549580791808 * 2 powi (2 - 52))"
    by (rule rnd_near) simp_all
  then show "rnd (90 * (3602879701896397 / 72057594037927936)) = Fin (9 / 2)" by simp
  have "rnd (100 * (3602879701896397 / 72057594037927936)) = Fin (of_int 5629499534213120 * 2 powi (2 - 52))"
    by (rule rnd_near) simp_all
  then show "rnd (100 * (3602879701896397 / 72057594037927936)) = Fin (5)" by simp
qed

lemma float_literal_15: "float_literal (15 / 100) = Fin (5404319552844595 / 36028797018963968)"
proof -
  have "rnd (15 / 100) = Fin (of_int 5404319552844595 * 2 powi (- 3 - 52))"
    by (rule rnd_near) simp_all
  then show ?thesis by (simp add: float_literal_def)
qed

lemma rnd_times_15:
  "rnd (10 * (5404319552844595 / 36028797018963968)) = Fin (3 / 2)"
  "rnd (20 * (5404319552844595 / 36028797018963968)) = Fin (3)"
  "rnd (30 * (5404319552844595 / 36028797018963968)) = Fin (9 / 2)"
  "rnd (40 * (5404319552844595 / 36028797018963968)) = Fin (6)"
  "rnd (50 * (5404319552844595 / 36028797018963968)) = Fin (15 / 2)"
  "rnd (60 * (5404319552844595 / 36028797018963968)) = Fin (9)"
  "rnd (70 * (5404319552844595 / 36028797018963968)) = Fin (21 / 2)"
  "rnd (80 * (5404319552844595 / 36028797018963968)) = Fin (12)"
  "rnd (90 * (5404319552844595 / 36028797018963968)) = Fin (27 / 2)"
  "rnd (100 * (5404319552844595 / 36028797018963968)) = Fin (15)"
proof -
  have "rnd (10 * (5404319552844595 / 36028797018963968)) = Fin (of_int 6755399441055744 * 2 powi (0 - 52))"
    by (rule rnd_near) simp_all
  then show "rnd (10 * (5404319552844595 / 36028797018963968)) = Fin (3 / 2)" by simp
  have "rnd (20 * (5404319552844595 / 36028797018963968)) = Fin (of_int 6755399441055744 * 2 powi (1 - 52))"
    by (rule rnd_near) simp_all
  then show "rnd (20 * (5404319552844595 / 36028797018963968)) = Fin (3)" by simp
  have "rnd (30 * (5404319552844595 / 36028797018963968)) = Fin (of_int 5066549580791808 * 2 powi (2 - 52))"
    by (rule rnd_near) simp_all
  then show "rnd (30 * (5404319552844595 / 36028797018963968)) = Fin (9 / 2)" by simp
  have "rnd (40 * (5404319552844595 / 36028797018963968)) = Fin (of_int 6755399441055744 * 2 powi (2 - 52))"
    by (rule rnd_near) simp_all
  then show "rnd (40 * (5404319552844595 / 36028797018963968)) = Fin (6)" by simp
  have "rnd (50 * (5404319552844595 / 36028797018963968)) = Fin (of_int 8444249301319680 * 2 powi (2 - 52))"
    by (rule rnd_near) simp_all
  then show "rnd (50 * (5404319552844595 / 36028797018963968)) = Fin (15 / 2)" by simp
  have "rnd (60 * (5404319552844595 / 36028797018963968)) = Fin (of_int 5066549580791808 * 2 powi (3 - 52))"
    by (rule rnd_near) simp_all
  then show "rnd (60 * (5404319552844595 / 36028797018963968)) = Fin (9)" by simp
  have "rnd (70 * (5404319552844595 / 36028797018963968)) = Fin (of_int 5910974510923776 * 2 powi (3 - 52))"
    by (rule rnd_near) simp_all
  then show "rnd (70 * (5404319552844595 / 36028797018963968)) = Fin (21 / 2)" by simp
  have "rnd (80 * (5404319552844595 / 36028797018963968)) = Fin (of_int 6755399441055744 * 2 powi (3 - 52))"
    by (rule rnd_near) simp_all
  then show "rnd (80 * (5404319552844595 / 36028797018963968)) = Fin (12)" by simp
  have "rnd (90 * (5404319552844595 / 36028797018963968)) = Fin (of_int 7599824371187712 * 2 powi (3 - 52))"
    by (rule rnd_near) simp_all
  then show "rnd (90 * (5404319552844595 / 36028797018963968)) = Fin (27 / 2)" by simp
  have "rnd (100 * (5404319552844595 / 36028797018963968)) = Fin (of_int 8444249301319680 * 2 powi (3 - 52))"
    by (rule rnd_near) simp_all
  then show "rnd (100 * (5404319552844595 / 36028797018963968)) = Fin (15)" by simp
qed

lemma score_cases:
  "0 \<le> x \<Longrightarrow> x \<le> 10 \<Longrightarrow>
     x = 0 \<or> x = 1 \<or> x = 2 \<or> x = 3 \<or> x = 4 \<or> x = 5 \<or> x = 6 \<or> x = 7 \<or> x = 8 \<or> x = 9 \<or> x = (10::int)"
  by arith

lemma rnd_zero [simp]: "rnd 0 = Fin 0"
  by (simp add: rnd_def)

lemma rnd_int:
  assumes "0 \<le> n" and "n < 2 ^ 53"
  shows "rnd (of_int n) = Fin (of_int n)"
proof (cases "n = 0")
  case True
  then show ?thesis by simp
next
  case False
  with assms have "rnd (of_int n / 2 ^ 0) = Fin (of_int n / 2 ^ 0)"
    by (intro rnd_dyadic) simp_all
  then show ?thesis by simp
qed

lemma rnd_half:
  assumes "0 \<le> k" and "k < 2 ^ 53"
  shows "rnd (of_int k / 2) = Fin (of_int k / 2)"
proof (cases "k = 0")
  case True
  then show ?thesis by simp
next
  case False
  with assms have "rnd (of_int k / 2 ^ 1) = Fin (of_int k / 2 ^ 1)"
    by (intro rnd_dyadic) simp_all
  then show ?thesis by simp
qed

lemma int_to_float_score: "0 \<le> x \<Longrightarrow> x \<le> 10 \<Longrightarrow> int_to_float (x * 10) = Inr (Fin (of_int (x * 10)))"
proof -
  assume "0 \<le> x" "x \<le> 10"
  then have "rnd (of_int (x * 10)) = Fin (of_int (x * 10))"
    by (intro rnd_int) simp_all
  then show ?thesis by (simp add: int_to_float_def)
qed

lemma times_minor:
  assumes "0 \<le> x" and "x \<le> 10"
  shows "int_times_float (x * 10) (float_literal (5 / 100)) = Inr (Fin (of_int x / 2))"
proof -
  have "rnd (of_int (x * 10) * (3602879701896397 / 72057594037927936)) = Fin (of_int x / 2)"
    using score_cases [OF assms] rnd_times_5 by auto
  then show ?thesis
    unfolding int_times_float_def int_to_float_score [OF assms] float_literal_5
    by (simp only: sum.case fmul.simps)
qed

lemma times_major:
  assumes "0 \<le> x" and "x \<le> 10"
  shows "int_times_float (x * 10) (float_literal (15 / 100)) = Inr (Fin (of_int (3 * x) / 2))"
proof -
  have "rnd (of_int (x * 10) * (5404319552844595 / 36028797018963968)) = Fin (of_int (3 * x) / 2)"
    using score_cases [OF assms] rnd_times_15 by auto
  then show ?thesis
    unfolding int_times_float_def int_to_float_score [OF assms] float_literal_15
    by (simp only: sum.case fmul.simps)
qed

lemma add_term_half:
  assumes "int_times_float (x * 10) w = Inr (Fin (of_int j / 2))" and "0 \<le> i + j" and "i + j < 2 ^ 53"
  shows "add_term (Inr (Fin (of_int i / 2))) x w = Inr (Fin (of_int (i + j) / 2))"
proof -
  have "rnd (of_int i / 2 + of_int j / 2) = Fin (of_int (i + j) / 2)"
    using rnd_half [OF assms(2,3)] by (simp add: add_divide_distrib)
  then show ?thesis by (simp add: add_term_def assms(1))
qed

subsection \<open>Scores\<close>

lemma float_literal_0: "float_literal 0 = Fin (of_int 0 / 2)"
  by (simp add: float_literal_def)

lemma round1_half: "round1 (of_int k / 2) = of_int k / 2"
proof -
  have "of_int k / 2 * 10 = (of_int (5 * k) :: rat)" by simp
  then have "round_half_even (of_int k / 2 * 10) = 5 * k"
    by (simp only: round_half_even_of_int)
  then show ?thesis by (simp add: round1_def)
qed

lemma py_round1_half:
  assumes "0 \<le> k" and "k < 2 ^ 53"
  shows "py_round1 (Fin (of_int k / 2)) = Inr (Fin (of_int k / 2))"
proof -
  have "of_int k / 2 * 10 = (of_int (5 * k) :: rat)" by simp
  then have "round_half_even (of_int k / 2 * 10) = 5 * k"
    by (simp only: round_half_even_of_int)
  moreover have "of_int (5 * k) / 10 = (of_int k / 2 :: rat)" by simp
  ultimately have "rnd (of_int (round_half_even (of_int k / 2 * 10)) / 10) = Fin (of_int k / 2)"
    using rnd_half [OF assms] by simp
  then show ?thesis by (simp add: py_round1_def)
qed

lemma calc_total_score_exact:
  assumes "0 \<le> type_sc" "type_sc \<le> 10" and "0 \<le> size_score" "size_score \<le> 10"
    and "0 \<le> code_quality" "code_quality \<le> 10" and "0 \<le> test_coverage" "test_coverage \<le> 10"
    and "0 \<le> doc_maintain" "doc_maintain \<le> 10"
    and "0 \<le> compliance_security" "compliance_security \<le> 10"
    and "0 \<le> merge_history" "merge_history \<le> 10" and "0 \<le> collaboration" "collaboration \<le> 10"
  shows "calc_total_score type_sc size_score code_quality test_coverage doc_maintain
           compliance_security merge_history collaboration =
         Inr (Fin (of_int (type_sc + size_score + 3 * code_quality + 3 * test_coverage +
                           3 * doc_maintain + 3 * compliance_security + 3 * merge_history +
                           3 * collaboration) / 2))"
proof -
  define k1 where "k1 = 0 + type_sc"
  define k2 where "k2 = k1 + size_score"
  define k3 where "k3 = k2 + 3 * code_quality"
  define k4 where "k4 = k3 + 3 * test_coverage"
  define k5 where "k5 = k4 + 3 * doc_maintain"
  define k6 where "k6 = k5 + 3 * compliance_security"
  define k7 where "k7 = k6 + 3 * merge_history"
  define k8 where "k8 = k7 + 3 * collaboration"
  note ks = k1_def k2_def k3_def k4_def k5_def k6_def k7_def k8_def
  have b: "0 \<le> k1" "k1 \<le> k2" "k2 \<le> k3" "k3 \<le> k4" "k4 \<le> k5" "k5 \<le> k6" "k6 \<le> k7"
    "k7 \<le> k8" "k8 \<le> 200"
    using assms by (simp_all add: ks)
  have big: "(200::int) < 2 ^ 53" by simp
  have t1: "add_term (Inr (float_literal 0)) type_sc weight_type = Inr (Fin (of_int k1 / 2))"
    unfolding float_literal_0 weight_type_def k1_def
    using b big by (intro add_term_half times_minor assms) (simp_all add: ks)
  have t2: "add_term (Inr (Fin (of_int k1 / 2))) size_score weight_size = Inr (Fin (of_int k2 / 2))"
    unfolding weight_size_def k2_def
    using b big by (intro add_term_half times_minor assms) (simp_all add: ks)
  have t3: "add_term (Inr (Fin (of_int k2 / 2))) code_quality weight_code = Inr (Fin (of_int k3 / 2))"
    unfolding weight_code_def k3_def
    using b big by (intro add_term_half times_major assms) (simp_all add: ks)
  have t4: "add_term (Inr (Fin (of_int k3 / 2))) test_coverage weight_test = Inr (Fin (of_int k4 / 2))"
    unfolding weight_test_def k4_def
    using b big by (intro add_term_half times_major assms) (simp_all add: ks)
  have t5: "add_term (Inr (Fin (of_int k4 / 2))) doc_maintain weight_doc = Inr (Fin (of_int k5 / 2))"
    unfolding weight_doc_def k5_def
    using b big by (intro add_term_half times_major assms) (simp_all add: ks)
  have t6: "add_term (Inr (Fin (of_int k5 / 2))) compliance_security weight_security
      = Inr (Fin (of_int k6 / 2))"
    unfolding weight_security_def k6_def
    using b big by (intro add_term_half times_major assms) (simp_all add: ks)
  have t7: "add_term (Inr (Fin (of_int k6 / 2))) merge_history weight_merge = Inr (Fin (of_int k7 / 2))"
    unfolding weight_merge_def k7_def
    using b big by (intro add_term_half times_major assms) (simp_all add: ks)
  have t8: "add_term (Inr (Fin (of_int k7 / 2))) collaboration weight_collab = Inr (Fin (of_int k8 / 2))"
    unfolding weight_collab_def k8_def
    using b big by (intro add_term_half times_major assms) (simp_all add: ks)
  have r: "py_round1 (Fin (of_int k8 / 2)) = Inr (Fin (of_int k8 / 2))"
    using b big by (intro py_round1_half) simp_all
  have code: "calc_total_score type_sc size_score code_quality test_coverage doc_maintain
           compliance_security merge_history collaboration = Inr (Fin (of_int k8 / 2))"
    unfolding calc_total_score_def Let_def t1 t2 t3 t4 t5 t6 t7 t8
    by (simp only: sum.case r)
  show ?thesis
    unfolding code by (simp add: ks)
qed

lemma composite_score_spec_exact:
  "composite_score_spec type_sc size_score code_quality test_coverage doc_maintain
     compliance_security merge_history collaboration =
   of_int (type_sc + size_score + 3 * code_quality + 3 * test_coverage +
           3 * doc_maintain + 3 * compliance_security + 3 * merge_history +
           3 * collaboration) / 2"
proof -
  have "of_int type_sc * 10 * (5 / 100) + of_int size_score * 10 * (5 / 100) +
        of_int code_quality * 10 * (15 / 100) + of_int test_coverage * 10 * (15 / 100) +
        of_int doc_maintain * 10 * (15 / 100) + of_int compliance_security * 10 * (15 / 100) +
        of_int merge_history * 10 * (15 / 100) + of_int collaboration * 10 * (15 / 100)
        = (of_int (type_sc + size_score + 3 * code_quality + 3 * test_coverage +
           3 * doc_maintain + 3 * compliance_security + 3 * merge_history +
           3 * collaboration) / 2 :: rat)"
    by (simp add: field_simps)
  then show ?thesis
    unfolding composite_score_spec_def by (simp only: round1_half)
qed

text \<open>
  C1. For integer scores from 0 to 10 (the type and size scores of the code lie in this
  range), the composite score computed in floating point is exactly the weighted sum of
  the specification rounded to one decimal place, and it lies between 0 and 100.
\<close>

theorem calc_total_score_weighted_sum:
  assumes "0 \<le> type_sc" "type_sc \<le> 10" and "0 \<le> size_score" "size_score \<le> 10"
    and "0 \<le> code_quality" "code_quality \<le> 10" and "0 \<le> test_coverage" "test_coverage \<le> 10"
    and "0 \<le> doc_maintain" "doc_maintain \<le> 10"
    and "0 \<le> compliance_security" "compliance_security \<le> 10"
    and "0 \<le> merge_history" "merge_history \<le> 10" and "0 \<le> collaboration" "collaboration \<le> 10"
  shows "calc_total_score type_sc size_score code_quality test_coverage doc_maintain
           compliance_security merge_history collaboration =
         Inr (Fin (composite_score_spec type_sc size_score code_quality test_coverage
           doc_maintain compliance_security merge_history collaboration)) \<and>
         0 \<le> composite_score_spec type_sc size_score code_quality test_coverage
           doc_maintain compliance_security merge_history collaboration \<and>
         composite_score_spec type_sc size_score code_quality test_coverage
           doc_maintain compliance_security merge_history collaboration \<le> 100"
proof -
  let ?k = "type_sc + size_score + 3 * code_quality + 3 * test_coverage +
            3 * doc_maintain + 3 * compliance_security + 3 * merge_history + 3 * collaboration"
  have "0 \<le> ?k" "?k \<le> 200"
    using assms by simp_all
  then have "0 \<le> (of_int ?k / 2 :: rat)" "(of_int ?k / 2 :: rat) \<le> 100"
    by simp_all
  then show ?thesis
    unfolding composite_score_spec_exact calc_total_score_exact [OF assms] by simp
qed

theorem calc_total_score_weighted_sum_witness:
  "calc_total_score 10 9 7 7 7 7 7 7 = Inr (Fin (145 / 2)) \<and>
   composite_score_spec 10 9 7 7 7 7 7 7 = 145 / 2"
proof -
  have s: "composite_score_spec 10 9 7 7 7 7 7 7 = 145 / 2"
    by (simp add: composite_score_spec_def round1_def round_half_even_def)
  from calc_total_score_weighted_sum [of 10 9 7 7 7 7 7 7] show ?thesis
    unfolding s by simp
qed

subsection \<open>Rating and size\<close>

lemma rating_labels_distinct:
  "rating_excellent \<noteq> rating_good" "rating_excellent \<noteq> rating_fair"
  "rating_good \<noteq> rating_fair"
  by (simp_all add: rating_excellent_def rating_good_def rating_fair_def)

text \<open>
  C2. For every (finite) total score, the rating is the top label exactly when the score
  is above 80, the middle label exactly when it is above 60 and at most 80, and the bottom
  label exactly when it is at most 60. The tests are strict, so a score of exactly 80 is
  rated good and a score of exactly 60 is rated fair.
\<close>

theorem rating_tiers:
  "(rating (Fin t) = rating_excellent \<longleftrightarrow> 80 < t) \<and>
   (rating (Fin t) = rating_good \<longleftrightarrow> 60 < t \<and> t \<le> 80) \<and>
   (rating (Fin t) = rating_fair \<longleftrightarrow> t \<le> 60) \<and>
   rating (Fin 80) = rating_good \<and> rating (Fin 60) = rating_fair"
  using rating_labels_distinct by (auto simp add: rating_def)

theorem rating_tiers_witness:
  "rating (Fin (801 / 10)) = rating_excellent \<and> rating (Fin (601 / 10)) = rating_good
   \<and> rating (Fin 42) = rating_fair"
  using rating_tiers [of "801 / 10"] rating_tiers [of "601 / 10"] rating_tiers [of 42]
  by simp

text \<open>
  C3. For all non-negative integers additions and deletions, with
  lines = additions + deletions: below 50 lines the size classifier returns (small, 5);
  from 50 to 200 lines, both ends included, it returns (medium, 7); above 200 lines it
  returns (large, 9).
\<close>

theorem size_category_and_score_buckets:
  "0 \<le> additions \<Longrightarrow> 0 \<le> deletions \<Longrightarrow>
   (additions + deletions < 50 \<longrightarrow>
      size_category_and_score additions deletions = (''small'', 5)) \<and>
   (50 \<le> additions + deletions \<and> additions + deletions \<le> 200 \<longrightarrow>
      size_category_and_score additions deletions = (''medium'', 7)) \<and>
   (200 < additions + deletions \<longrightarrow>
      size_category_and_score additions deletions = (''large'', 9))"
  by (simp add: size_category_and_score_def Let_def)

theorem size_category_and_score_buckets_witness:
  "size_category_and_score 40 9 = (''small'', 5) \<and>
   size_category_and_score 50 0 = (''medium'', 7) \<and>
   size_category_and_score 120 80 = (''medium'', 7) \<and>
   size_category_and_score 200 1 = (''large'', 9)"
  using size_category_and_score_buckets [of 40 9] size_category_and_score_buckets [of 50 0]
    size_category_and_score_buckets [of 120 80] size_category_and_score_buckets [of 200 1]
  by simp

subsection \<open>Reference cleaning\<close>

lemma hash_not_class [simp]:
  "\<not> re_word db 0x23" "\<not> re_digit db 0x23" "\<not> re_space db 0x23"
  by (simp_all add: re_word_def re_digit_def re_space_def)


lemma many1_SomeD:
  "many1 P s = Some (a, r) \<Longrightarrow> s = a @ r \<and> a \<noteq> [] \<and> (\<forall>x\<in>set a. P x) \<and> (r = [] \<or> \<not> P (hd r))"
proof -
  assume "many1 P s = Some (a, r)"
  then have a: "a = takeWhile P s" and r: "r = dropWhile P s" and n: "a \<noteq> []"
    by (auto simp add: many1_def split: if_splits)
  have "r = [] \<or> \<not> P (hd r)"
    unfolding r by (metis hd_dropWhile)
  moreover have "\<forall>x\<in>set a. P x"
    unfolding a by (auto dest: set_takeWhileD)
  ultimately show ?thesis
    using n by (simp add: a r)
qed

lemma hash_digits_SomeD:
  "hash_digits db s = Some (d, rest) \<Longrightarrow>
     s = 0x23 # d @ rest \<and> d \<noteq> [] \<and> (\<forall>x\<in>set d. re_digit db x) \<and> \<not> starts_digit db rest"
proof -
  assume h: "hash_digits db s = Some (d, rest)"
  then obtain r where s: "s = 0x23 # r" and m: "many1 (re_digit db) r = Some (d, rest)"
    by (cases s) (auto simp add: hash_digits_def split: if_splits)
  from many1_SomeD [OF m] have "r = d @ rest" "d \<noteq> []" "\<forall>x\<in>set d. re_digit db x"
    "rest = [] \<or> \<not> re_digit db (hd rest)" by simp_all
  moreover from this have "\<not> starts_digit db rest" by (cases rest) auto
  ultimately show ?thesis using s by simp
qed

lemma hash_digits_not_free: "hash_digits db s = Some (d, rest) \<Longrightarrow> \<not> hash_digit_free db s"
proof -
  assume "hash_digits db s = Some (d, rest)"
  from hash_digits_SomeD [OF this] show ?thesis by (cases d) auto
qed

lemma hash_digit_free_append: "hash_digit_free db (u @ t) \<Longrightarrow> hash_digit_free db t"
  by (induction u) auto

lemma hash_digit_free_suffix: "suffix t s \<Longrightarrow> hash_digit_free db s \<Longrightarrow> hash_digit_free db t"
  by (auto simp add: suffix_def dest: hash_digit_free_append)

lemma lit_ci_suffix: "lit_ci db w s = Some r \<Longrightarrow> suffix r s"
  by (induction db w s rule: lit_ci.induct) (auto split: if_splits intro: suffix_ConsI)

lemma many1_suffix: "many1 P s = Some (a, r) \<Longrightarrow> suffix r s"
  by (auto dest: many1_SomeD simp add: suffix_def)

lemma words_ci_suffix: "words_ci db ws s = Some r \<Longrightarrow> suffix r s"
proof (induction ws arbitrary: s)
  case Nil
  then show ?case by simp
next
  case (Cons w ws)
  then obtain r1 sp r2 where a: "lit_ci db w s = Some r1"
    and b: "many1 (re_space db) r1 = Some (sp, r2)"
    and c: "words_ci db ws r2 = Some r"
    by (auto split: option.splits)
  from Cons.IH [OF c] many1_suffix [OF b] lit_ci_suffix [OF a] show ?case
    by (meson suffix_order.trans)
qed

lemma pat_word_ref_not_free: "pat_word_ref db s = Some x \<Longrightarrow> \<not> hash_digit_free db s"
proof -
  assume "pat_word_ref db s = Some x"
  then obtain w r d rest where m: "many1 (re_word db) s = Some (w, r)"
    and h: "hash_digits db r = Some (d, rest)"
    by (auto simp add: pat_word_ref_def split: option.splits)
  from hash_digits_not_free [OF h] hash_digit_free_suffix [OF many1_suffix [OF m]]
  show ?thesis by blast
qed

lemma pat_item_not_free: "pat_item db s = Some x \<Longrightarrow> \<not> hash_digit_free db s"
  by (auto simp add: pat_item_def split: option.splits dest: hash_digits_not_free)

lemma pat_keyword_not_free: "pat_keyword db ws label s = Some x \<Longrightarrow> \<not> hash_digit_free db s"
proof -
  assume "pat_keyword db ws label s = Some x"
  then obtain r d rest where m: "words_ci db (map ascii ws) s = Some r"
    and h: "hash_digits db r = Some (d, rest)"
    by (auto simp add: pat_keyword_def split: option.splits)
  from hash_digits_not_free [OF h] hash_digit_free_suffix [OF words_ci_suffix [OF m]]
  show ?thesis by blast
qed

lemma re_sub_free_id:
  assumes "\<And>t x. m t = Some x \<Longrightarrow> \<not> hash_digit_free db t"
  shows "hash_digit_free db s \<Longrightarrow> re_sub m s = s"
proof (induction s)
  case Nil
  then show ?case by simp
next
  case (Cons c cs)
  have "m (c # cs) = None"
  proof (cases "m (c # cs)")
    case (Some x)
    from assms [OF Some] Cons.prems show ?thesis by blast
  qed simp
  with Cons show ?case by simp
qed

lemma hash_digit_free_no_hash: "0x23 \<notin> set s \<Longrightarrow> hash_digit_free db s"
  by (induction s) auto

lemma hash_digit_free_append_no_hash:
  "0x23 \<notin> set u \<Longrightarrow> hash_digit_free db t \<Longrightarrow> hash_digit_free db (u @ t)"
  by (induction u) auto

lemma item_literal: "ascii ''Item-'' = [0x49, 0x74, 0x65, 0x6D, 0x2D]" "ascii ''-'' = [0x2D]"
  "ascii ''#'' = [0x23]"
  by (simp_all add: ascii_def)

lemma re_sub_item_start:
  "\<not> starts_digit db s \<Longrightarrow> \<not> starts_digit db (re_sub (pat_item db) s)"
proof (cases s)
  case Nil
  then show ?thesis by simp
next
  case (Cons c cs)
  assume n: "\<not> starts_digit db s"
  have i: "\<not> re_digit db 0x49"
    by (simp add: re_digit_def)
  show ?thesis
  proof (cases "pat_item db s")
    case None
    with n show ?thesis by (simp add: Cons)
  next
    case (Some p)
    then obtain d rest where "p = (ascii ''Item-'' @ d, rest)"
      by (auto simp add: pat_item_def split: option.splits)
    with Some i show ?thesis by (simp add: Cons n [unfolded Cons, simplified] item_literal)
  qed
qed

lemma digits_no_hash: "\<forall>x\<in>set d. re_digit db x \<Longrightarrow> 0x23 \<notin> set d"
  by auto

lemma re_sub_item_free: "hash_digit_free db (re_sub (pat_item db) s)"
proof (induction s rule: length_induct)
  case (1 s)
  show ?case
  proof (cases s)
    case Nil
    then show ?thesis by simp
  next
    case (Cons c cs)
    show ?thesis
    proof (cases "hash_digits db s")
      case None
      then have r: "re_sub (pat_item db) s = c # re_sub (pat_item db) cs"
        by (simp add: Cons pat_item_def)
      have "hash_digit_free db (re_sub (pat_item db) cs)"
        using 1 Cons by simp
      moreover have "c = 0x23 \<Longrightarrow> \<not> starts_digit db (re_sub (pat_item db) cs)"
      proof (rule re_sub_item_start)
        assume "c = 0x23"
        with None Cons show "\<not> starts_digit db cs"
          by (cases cs) (auto simp add: hash_digits_def many1_def split: if_splits)
      qed
      ultimately show ?thesis by (auto simp add: r)
    next
      case (Some p)
      obtain d rest where p: "p = (d, rest)" by (cases p)
      from hash_digits_SomeD [OF Some [unfolded p]]
      have s: "s = 0x23 # d @ rest" and d: "\<forall>x\<in>set d. re_digit db x" by auto
      from s Cons have len: "length rest \<le> length cs" by auto
      from s have "length rest < length s" by simp
      with 1 have ih: "hash_digit_free db (re_sub (pat_item db) rest)" by simp
      have r: "re_sub (pat_item db) s = (ascii ''Item-'' @ d) @ re_sub (pat_item db) rest"
        using Some p len by (simp add: Cons pat_item_def)
      have "0x23 \<notin> set (ascii ''Item-'' @ d)"
        using digits_no_hash [OF d] by (simp add: item_literal)
      with ih show ?thesis
        unfolding r by (rule hash_digit_free_append_no_hash [rotated])
    qed
  qed
qed

lemma clean_references_eq:
  "clean_references db s = re_sub (pat_item db) (re_sub (pat_word_ref db) s)"
proof -
  let ?t = "re_sub (pat_item db) (re_sub (pat_word_ref db) s)"
  have f: "hash_digit_free db ?t" by (rule re_sub_item_free)
  have k: "re_sub (pat_keyword db ws label) ?t = ?t" for ws label
    by (rule re_sub_free_id [OF _ f]) (rule pat_keyword_not_free)
  show ?thesis
    by (simp add: clean_references_def patterns_def k)
qed

lemma clean_references_free: "hash_digit_free db (clean_references db s)"
  by (simp add: clean_references_eq re_sub_item_free)

lemma clean_references_fixed: "hash_digit_free db s \<Longrightarrow> clean_references db s = s"
proof -
  assume f: "hash_digit_free db s"
  have a: "re_sub (pat_word_ref db) s = s"
    by (rule re_sub_free_id [OF _ f]) (rule pat_word_ref_not_free)
  have b: "re_sub (pat_item db) s = s"
    by (rule re_sub_free_id [OF _ f]) (rule pat_item_not_free)
  show ?thesis by (simp add: clean_references_eq a b)
qed

text \<open>
  C10. Cleaning is idempotent: for every text, a list of code points, and whatever the
  Unicode database says beyond U+00FF, cleaning a cleaned text changes nothing. After
  one pass no \<^verbatim>\<open>#\<close> is directly followed by a digit, and every pattern needs such a place
  to match.
\<close>

theorem clean_references_idempotent:
  "clean_references db (clean_references db s) = clean_references db s"
  by (rule clean_references_fixed) (rule clean_references_free)

lemma word_no_hash: "\<forall>x\<in>set w. re_word db x \<Longrightarrow> 0x23 \<notin> set w"
  by auto

lemma many1_all:
  "s \<noteq> [] \<Longrightarrow> \<forall>x\<in>set s. P x \<Longrightarrow> (r = [] \<or> \<not> P (hd r)) \<Longrightarrow> many1 P (s @ r) = Some (s, r)"
  by (cases r) (auto simp add: many1_def takeWhile_append2 dropWhile_append2 takeWhile_eq_Nil_iff)

lemma pat_word_ref_word:
  assumes "w \<noteq> []" "\<forall>c\<in>set w. re_word db c" "ds \<noteq> []" "\<forall>c\<in>set ds. re_digit db c"
  shows "pat_word_ref db (w @ 0x23 # ds) = Some (w @ 0x2D # ds, [])"
proof -
  have "many1 (re_word db) (w @ 0x23 # ds) = Some (w, 0x23 # ds)"
    using assms(1,2) by (intro many1_all) simp_all
  moreover have "many1 (re_digit db) (ds @ []) = Some (ds, [])"
    using assms(3,4) by (intro many1_all) simp_all
  ultimately show ?thesis
    by (simp add: pat_word_ref_def hash_digits_def item_literal)
qed

lemma re_sub_word_ref_word:
  assumes "w \<noteq> []" "\<forall>c\<in>set w. re_word db c" "ds \<noteq> []" "\<forall>c\<in>set ds. re_digit db c"
  shows "re_sub (pat_word_ref db) (w @ 0x23 # ds) = w @ 0x2D # ds"
proof -
  obtain c cs where w: "w = c # cs" using assms(1) by (cases w) auto
  have "re_sub (pat_word_ref db) ((c # cs) @ 0x23 # ds) = (c # cs) @ 0x2D # ds"
    using pat_word_ref_word [OF assms] by (simp add: w)
  then show ?thesis by (simp add: w)
qed

lemma re_sub_no_hash_word_ref: "0x23 \<notin> set s \<Longrightarrow> re_sub (pat_word_ref db) s = s"
  by (rule re_sub_free_id [OF _ hash_digit_free_no_hash]) (rule pat_word_ref_not_free)

lemma re_sub_no_hash_item: "0x23 \<notin> set s \<Longrightarrow> re_sub (pat_item db) s = s"
  by (rule re_sub_free_id [OF _ hash_digit_free_no_hash]) (rule pat_item_not_free)

lemma re_sub_item_bare:
  assumes "ds \<noteq> []" "\<forall>c\<in>set ds. re_digit db c"
  shows "re_sub (pat_item db) (0x23 # ds) = ascii ''Item-'' @ ds"
proof -
  have "many1 (re_digit db) (ds @ []) = Some (ds, [])"
    using assms by (intro many1_all) simp_all
  then show ?thesis
    by (simp add: pat_item_def hash_digits_def)
qed

lemma clean_references_word_ref:
  assumes "w \<noteq> []" "\<forall>c\<in>set w. re_word db c" "ds \<noteq> []" "\<forall>c\<in>set ds. re_digit db c"
  shows "clean_references db (w @ 0x23 # ds) = w @ 0x2D # ds"
proof -
  have nw: "0x23 \<notin> set w" using assms(2) by (rule word_no_hash)
  have nd: "0x23 \<notin> set ds" using assms(4) by (rule digits_no_hash)
  have a1: "re_sub (pat_word_ref db) (w @ 0x23 # ds) = w @ 0x2D # ds"
    by (rule re_sub_word_ref_word [OF assms])
  have a2: "re_sub (pat_item db) (w @ 0x2D # ds) = w @ 0x2D # ds"
    using nw nd by (intro re_sub_no_hash_item) simp
  show ?thesis
    unfolding clean_references_eq a1 a2 ..
qed

lemma clean_references_bare:
  assumes "ds \<noteq> []" "\<forall>c\<in>set ds. re_digit db c"
  shows "clean_references db (0x23 # ds) = ascii ''Item-'' @ ds"
proof -
  have nd: "0x23 \<notin> set ds" using assms(2) by (rule digits_no_hash)
  have c1: "re_sub (pat_word_ref db) (0x23 # ds) = 0x23 # ds"
    using nd by (simp add: pat_word_ref_def many1_def re_sub_no_hash_word_ref)
  show ?thesis
    unfolding clean_references_eq c1 by (rule re_sub_item_bare [OF assms])
qed

























lemma hash_digits_Some:
  "starts_hash_digit db t \<Longrightarrow> \<exists>ds r. hash_digits db t = Some (ds, r)"
proof -
  assume a: "starts_hash_digit db t"
  then obtain cs where t: "t = 0x23 # cs" and d: "starts_digit db cs"
    by (cases t) auto
  from d obtain e es where "cs = e # es" "re_digit db e"
    by (cases cs) auto
  then show ?thesis
    by (simp add: t hash_digits_def many1_def)
qed

text \<open>
  Every non-empty text starts in one of the five ways that the rules below describe: a
  run of word characters with \<^verbatim>\<open>#\<close> and digits; \<^verbatim>\<open>#\<close> and digits, followed or not by
  a second \<^verbatim>\<open>#\<close> with digits; a run of word characters without \<^verbatim>\<open>#\<close> and digits
  behind it; or a character outside the word characters that is not a \<^verbatim>\<open>#\<close> before a
  digit.
\<close>

lemma text_cases:
  "s = [] \<or>
   (\<exists>w ds t. s = w @ 0x23 # ds @ t \<and> w \<noteq> [] \<and> (\<forall>c\<in>set w. re_word db c) \<and>
      ds \<noteq> [] \<and> (\<forall>c\<in>set ds. re_digit db c) \<and> \<not> starts_digit db t) \<or>
   (\<exists>ds t. s = 0x23 # ds @ t \<and> ds \<noteq> [] \<and> (\<forall>c\<in>set ds. re_digit db c) \<and>
      \<not> starts_digit db t \<and> \<not> starts_hash_digit db t) \<or>
   (\<exists>ds es t. s = 0x23 # ds @ 0x23 # es @ t \<and> ds \<noteq> [] \<and> (\<forall>c\<in>set ds. re_digit db c) \<and>
      es \<noteq> [] \<and> (\<forall>c\<in>set es. re_digit db c) \<and> \<not> starts_digit db t) \<or>
   (\<exists>w u. s = w @ u \<and> w \<noteq> [] \<and> (\<forall>c\<in>set w. re_word db c) \<and> \<not> starts_hash_digit db u) \<or>
   (\<exists>x u. s = x # u \<and> \<not> re_word db x \<and> (x = 0x23 \<longrightarrow> \<not> starts_digit db u))"
  (is "?E \<or> ?W \<or> ?B \<or> ?P \<or> ?R \<or> ?O")
proof (cases s)
  case Nil
  then show ?thesis by (rule disjI1)
next
  case (Cons c cs)
  show ?thesis
  proof (cases "re_word db c")
    case True
    then have "many1 (re_word db) s = Some (takeWhile (re_word db) s, dropWhile (re_word db) s)"
      by (simp add: Cons many1_def)
    from many1_SomeD [OF this] obtain w r where w: "s = w @ r" "w \<noteq> []" "\<forall>c\<in>set w. re_word db c"
      by blast
    show ?thesis
    proof (cases "starts_hash_digit db r")
      case True
      from hash_digits_Some [OF this] obtain ds t where "hash_digits db r = Some (ds, t)"
        by blast
      from hash_digits_SomeD [OF this]
      have "r = 0x23 # ds @ t" "ds \<noteq> []" "\<forall>c\<in>set ds. re_digit db c" "\<not> starts_digit db t"
        by simp_all
      with w have "s = w @ 0x23 # ds @ t \<and> w \<noteq> [] \<and> (\<forall>c\<in>set w. re_word db c) \<and>
          ds \<noteq> [] \<and> (\<forall>c\<in>set ds. re_digit db c) \<and> \<not> starts_digit db t"
        by simp
      then have ?W by (intro exI)
      then show ?thesis by (rule disjI2 [OF disjI1])
    next
      case False
      with w have "s = w @ r \<and> w \<noteq> [] \<and> (\<forall>c\<in>set w. re_word db c) \<and> \<not> starts_hash_digit db r"
        by simp
      then have ?R by (intro exI)
      then show ?thesis by (rule disjI2 [OF disjI2 [OF disjI2 [OF disjI2 [OF disjI1]]]])
    qed
  next
    case False
    note nw = this
    show ?thesis
    proof (cases "starts_hash_digit db s")
      case True
      from hash_digits_Some [OF this] obtain ds t where "hash_digits db s = Some (ds, t)"
        by blast
      from hash_digits_SomeD [OF this]
      have ds: "s = 0x23 # ds @ t" "ds \<noteq> []" "\<forall>c\<in>set ds. re_digit db c" "\<not> starts_digit db t"
        by simp_all
      show ?thesis
      proof (cases "starts_hash_digit db t")
        case True
        from hash_digits_Some [OF this] obtain es t' where "hash_digits db t = Some (es, t')"
          by blast
        from hash_digits_SomeD [OF this]
        have "t = 0x23 # es @ t'" "es \<noteq> []" "\<forall>c\<in>set es. re_digit db c" "\<not> starts_digit db t'"
          by simp_all
        with ds have "s = 0x23 # ds @ 0x23 # es @ t' \<and> ds \<noteq> [] \<and> (\<forall>c\<in>set ds. re_digit db c) \<and>
            es \<noteq> [] \<and> (\<forall>c\<in>set es. re_digit db c) \<and> \<not> starts_digit db t'"
          by simp
        then have ?P by (intro exI)
        then show ?thesis by (rule disjI2 [OF disjI2 [OF disjI2 [OF disjI1]]])
      next
        case False
        with ds have "s = 0x23 # ds @ t \<and> ds \<noteq> [] \<and> (\<forall>c\<in>set ds. re_digit db c) \<and>
            \<not> starts_digit db t \<and> \<not> starts_hash_digit db t"
          by simp
        then have ?B by (intro exI)
        then show ?thesis by (rule disjI2 [OF disjI2 [OF disjI1]])
      qed
    next
      case False
      with nw Cons have "s = c # cs \<and> \<not> re_word db c \<and> (c = 0x23 \<longrightarrow> \<not> starts_digit db cs)"
        by simp
      then have ?O by (intro exI)
      then show ?thesis by (rule disjI2 [OF disjI2 [OF disjI2 [OF disjI2 [OF disjI2]]]])
    qed
  qed
qed




text \<open>
  The four keyword patterns come after the generic \<^verbatim>\<open>#(\d+)\<close> pattern in the list, so
  by the time they run no \<^verbatim>\<open>#\<close> followed by a digit is left for them: they never match,
  although the comments of the source announce \<^verbatim>\<open>issue #123 -> Issue-123\<close> and
  \<^verbatim>\<open>PR #123 -> PR-123\<close>.
\<close>

lemma clean_references_keyword_forms:
  "clean_references db (ascii ''issue #123'') = ascii ''issue Item-123''"
  "clean_references db (ascii ''pr #123'') = ascii ''pr Item-123''"
  "clean_references db (ascii ''pull request #123'') = ascii ''pull request Item-123''"
  "clean_references db (ascii ''discussion #123'') = ascii ''discussion Item-123''"
  by code_simp+

text \<open>
  The function works on any code points. With a database in which the CJK ideographs
  are alphabetic and the fullwidth digits are decimal digits, as they are in Unicode, a
  word of ideographs before \<^verbatim>\<open>#\<close> and fullwidth digits after it are rewritten like
  their ASCII counterparts.
\<close>

lemma clean_references_beyond_latin1:
  assumes "ucd_alpha db 0x4ED3" "ucd_alpha db 0x5E93" "ucd_decimal db 0xFF11" "ucd_decimal db 0xFF12"
  shows "clean_references db ([0x4ED3, 0x5E93] @ ascii ''#'' @ [0xFF11, 0xFF12]) =
         [0x4ED3, 0x5E93] @ ascii ''-'' @ [0xFF11, 0xFF12]"
  using clean_references_word_ref [of "[0x4ED3, 0x5E93]" db "[0xFF11, 0xFF12]"] assms
  by (simp add: re_word_def re_digit_def item_literal)

subsection \<open>The partitioner without a store\<close>

lemma bucket_of_tagged [simp]:
  "bucket_of parse p (r\<lparr>created_in_period := x\<rparr>) = bucket_of parse p r"
  by (simp add: bucket_of_def split: option.splits)

lemma bucket_of_tag [simp]: "bucket_of parse p (tag b r) = bucket_of parse p r"
  by (simp add: tag_def)

lemma number_tag [simp]: "number (tag b r) = number r"
  by (simp add: tag_def)

lemma keeps_tag [simp]: "keeps seen (tag b r) = keeps seen r"
  by (simp add: keeps_def)

lemma tag_tag [simp]: "tag b (tag c r) = tag b r"
  by (simp add: tag_def)

lemma created_in_period_tag [simp]: "created_in_period (tag b r) = Some b"
  by (simp add: tag_def)

lemma bucket_of_update:
  "bucket_of parse p (st[i := (st ! i)\<lparr>created_in_period := x\<rparr>] ! j) = bucket_of parse p (st ! j)"
proof (cases "i < length st")
  case True
  then show ?thesis by (cases "i = j") auto
next
  case False
  then have "st[i := (st ! i)\<lparr>created_in_period := x\<rparr>] = st"
    by (intro list_update_beyond) simp
  then show ?thesis by simp
qed

lemma py_in_created:
  assumes "\<forall>j\<in>set cr. bucket_of parse p (st ! j) = Some Created"
    and "(i \<in> set cr) = (bucket_of parse p (st ! i) = Some Created)"
  shows "py_in st i cr = (i \<in> set cr)"
proof (cases "i \<in> set cr")
  case True
  then show ?thesis by (auto simp add: py_in_def list_ex_iff)
next
  case False
  have "st ! j \<noteq> st ! i" if "j \<in> set cr" for j
  proof
    assume "st ! j = st ! i"
    then have "bucket_of parse p (st ! i) = Some Created"
      using assms(1) that by metis
    with assms(2) False show False by simp
  qed
  with False show ?thesis by (auto simp add: py_in_def list_ex_iff)
qed

lemma kept_subset: "set (kept st seen refs) \<subseteq> set refs"
  by (induction refs arbitrary: seen) auto

lemma kept_cong:
  "(\<And>j. j \<in> set refs \<Longrightarrow> number (st' ! j) = number (st ! j)) \<Longrightarrow>
     kept st' seen refs = kept st seen refs"
  by (induction refs arbitrary: seen) (auto simp add: keeps_def)

lemma merge_loop_kept:
  assumes "distinct refs"
    and "\<forall>i\<in>set refs. i < length st"
    and "\<forall>j\<in>set cr. bucket_of parse p (st ! j) = Some Created"
    and "\<forall>i\<in>set refs. (i \<in> set cr) = (bucket_of parse p (st ! i) = Some Created)"
  shows "\<exists>st' seen'.
           merge_loop refs cr (st, seen, filtered) = (st', seen', filtered @ kept st seen refs) \<and>
           (\<forall>j. j \<notin> set (kept st seen refs) \<longrightarrow> st' ! j = st ! j) \<and>
           (\<forall>i\<in>set (kept st seen refs). st' ! i = tag (i \<in> set cr) (st ! i))"
  using assms
proof (induction refs arbitrary: st seen filtered)
  case Nil
  then show ?case by simp
next
  case (Cons i refs)
  show ?case
  proof (cases "keeps seen (st ! i)")
    case False
    from Cons.prems have
      "\<exists>st' seen'.
         merge_loop refs cr (st, seen, filtered) = (st', seen', filtered @ kept st seen refs) \<and>
         (\<forall>j. j \<notin> set (kept st seen refs) \<longrightarrow> st' ! j = st ! j) \<and>
         (\<forall>i\<in>set (kept st seen refs). st' ! i = tag (i \<in> set cr) (st ! i))"
      by (intro Cons.IH) auto
    with False show ?thesis
      by (auto simp add: keeps_def split: option.splits)
  next
    case True
    then obtain n where n: "number (st ! i) = Some n" "n \<noteq> 0" "n \<notin> seen"
      by (auto simp add: keeps_def split: option.splits)
    let ?b = "py_in st i cr"
    let ?st = "st[i := (st ! i)\<lparr>created_in_period := Some ?b\<rparr>]"
    have b: "?b = (i \<in> set cr)"
      using Cons.prems(3,4) by (intro py_in_created [of cr parse p st i]) auto
    have i: "i < length st" "i \<notin> set refs"
      using Cons.prems(1,2) by auto
    have same: "?st ! j = st ! j" if "j \<in> set refs" for j
      using that i by (auto simp add: nth_list_update)
    have k: "kept ?st (insert n seen) refs = kept st (insert n seen) refs"
      by (rule kept_cong) (simp add: same)
    have "\<exists>st' seen'.
         merge_loop refs cr (?st, insert n seen, filtered @ [i]) =
           (st', seen', (filtered @ [i]) @ kept ?st (insert n seen) refs) \<and>
         (\<forall>j. j \<notin> set (kept ?st (insert n seen) refs) \<longrightarrow> st' ! j = ?st ! j) \<and>
         (\<forall>i\<in>set (kept ?st (insert n seen) refs). st' ! i = tag (i \<in> set cr) (?st ! i))"
      using Cons.prems by (intro Cons.IH) (auto simp add: bucket_of_update)
    then obtain st' seen' where
      m: "merge_loop refs cr (?st, insert n seen, filtered @ [i]) =
            (st', seen', (filtered @ [i]) @ kept st (insert n seen) refs)"
      and u: "\<forall>j. j \<notin> set (kept st (insert n seen) refs) \<longrightarrow> st' ! j = ?st ! j"
      and v: "\<forall>i\<in>set (kept st (insert n seen) refs). st' ! i = tag (i \<in> set cr) (?st ! i)"
      unfolding k by blast
    have ni: "i \<notin> set (kept st (insert n seen) refs)"
      using kept_subset [of st "insert n seen" refs] i by auto
    have kk: "kept st seen (i # refs) = i # kept st (insert n seen) refs"
      using True n by simp
    have e1: "merge_loop (i # refs) cr (st, seen, filtered) =
                (st', seen', filtered @ kept st seen (i # refs))"
      unfolding kk using m n by simp
    have e2: "\<forall>j. j \<notin> set (kept st seen (i # refs)) \<longrightarrow> st' ! j = st ! j"
      unfolding kk using u by (auto simp add: nth_list_update)
    have e3: "\<forall>j\<in>set (kept st seen (i # refs)). st' ! j = tag (j \<in> set cr) (st ! j)"
    proof
      fix j
      assume j: "j \<in> set (kept st seen (i # refs))"
      show "st' ! j = tag (j \<in> set cr) (st ! j)"
      proof (cases "j = i")
        case True
        with u ni have "st' ! j = ?st ! i" by simp
        with True i b show ?thesis by (simp add: tag_def)
      next
        case False
        have jj: "j \<in> set (kept st (insert n seen) refs)"
          using j False unfolding kk by simp
        then have "j \<in> set refs" using kept_subset by blast
        with v jj same show ?thesis by simp
      qed
    qed
    from e1 e2 e3 show ?thesis by blast
  qed
qed

lemma map_kept_dedup:
  "(\<And>i. number (f i) = number (st ! i)) \<Longrightarrow> map f (kept st seen refs) = dedup seen (map f refs)"
  by (induction refs arbitrary: seen) (auto simp add: keeps_def)

lemma map_nth_filter: "map ((!) st) (filter (\<lambda>i. P (st ! i)) [0..<length st]) = filter P st"
proof -
  have "filter P (map ((!) st) [0..<length st]) = map ((!) st) (filter (P \<circ> (!) st) [0..<length st])"
    by (rule filter_map)
  then show ?thesis by (simp add: map_nth comp_def)
qed

lemma partition_issues_eq:
  "partition_issues parse p st =
     dedup {} (map (tag True) (filter (is_created parse p) st) @
               map (tag False) (filter (is_updated parse p) st))"
proof -
  let ?cr = "created_issues parse p st" and ?up = "updated_issues parse p st"
  have d: "distinct (?cr @ ?up)"
    by (auto simp add: created_issues_def updated_issues_def)
  have l: "\<forall>i\<in>set (?cr @ ?up). i < length st"
    by (auto simp add: created_issues_def updated_issues_def)
  have c: "\<forall>j\<in>set ?cr. bucket_of parse p (st ! j) = Some Created"
    by (simp add: created_issues_def)
  have m: "\<forall>i\<in>set (?cr @ ?up). (i \<in> set ?cr) = (bucket_of parse p (st ! i) = Some Created)"
    by (auto simp add: created_issues_def updated_issues_def)
  from merge_loop_kept [OF d l c m, of "{}" "[]"]
  obtain st' seen' where
    e: "merge_loop (?cr @ ?up) ?cr (st, {}, []) = (st', seen', kept st {} (?cr @ ?up))"
    and t: "\<forall>i\<in>set (kept st {} (?cr @ ?up)). st' ! i = tag (i \<in> set ?cr) (st ! i)"
    by auto
  have "partition_issues parse p st = map ((!) st') (kept st {} (?cr @ ?up))"
    by (simp add: partition_issues_def e)
  also have "\<dots> = map (\<lambda>i. tag (i \<in> set ?cr) (st ! i)) (kept st {} (?cr @ ?up))"
    using t by (intro map_cong) auto
  also have "\<dots> = dedup {} (map (\<lambda>i. tag (i \<in> set ?cr) (st ! i)) (?cr @ ?up))"
    by (rule map_kept_dedup) simp
  also have "map (\<lambda>i. tag (i \<in> set ?cr) (st ! i)) (?cr @ ?up) =
      map (tag True) (map ((!) st) ?cr) @ map (tag False) (map ((!) st) ?up)"
  proof -
    have "\<forall>i\<in>set ?up. i \<notin> set ?cr" using d by auto
    then have "map (\<lambda>i. tag (i \<in> set ?cr) (st ! i)) ?up = map (\<lambda>i. tag False (st ! i)) ?up"
      by (intro map_cong) auto
    moreover have "map (\<lambda>i. tag (i \<in> set ?cr) (st ! i)) ?cr = map (\<lambda>i. tag True (st ! i)) ?cr"
      by (intro map_cong) auto
    ultimately show ?thesis by (simp add: comp_def)
  qed
  also have "map ((!) st) ?cr = filter (is_created parse p) st"
    unfolding created_issues_def is_created_def by (rule map_nth_filter)
  also have "map ((!) st) ?up = filter (is_updated parse p) st"
    unfolding updated_issues_def is_updated_def by (rule map_nth_filter)
  finally show ?thesis .
qed

subsection \<open>Deduplication\<close>

lemma keeps_insert: "keeps (insert n seen) r \<Longrightarrow> keeps seen r"
  by (auto simp add: keeps_def split: option.splits)

lemma dedup_subset: "r \<in> set (dedup seen rs) \<Longrightarrow> r \<in> set rs \<and> keeps seen r"
proof (induction rs arbitrary: seen)
  case Nil
  then show ?case by simp
next
  case (Cons a rs)
  show ?case
  proof (cases "keeps seen a")
    case True
    with Cons.prems have "r = a \<or> r \<in> set (dedup (insert (the (number a)) seen) rs)"
      by simp
    with True Cons.IH show ?thesis
      by (auto dest: keeps_insert)
  next
    case False
    with Cons show ?thesis by simp
  qed
qed

lemma dedup_distinct: "distinct (map number (dedup seen rs))"
proof (induction rs arbitrary: seen)
  case Nil
  then show ?case by simp
next
  case (Cons r rs)
  have "number r \<notin> number ` set (dedup (insert (the (number r)) seen) rs)" if "keeps seen r"
  proof
    assume "number r \<in> number ` set (dedup (insert (the (number r)) seen) rs)"
    then obtain r' where "r' \<in> set (dedup (insert (the (number r)) seen) rs)"
      and "number r' = number r" by auto
    then have "keeps (insert (the (number r)) seen) r'" "number r' = number r"
      using dedup_subset by blast+
    then show False by (auto simp add: keeps_def split: option.splits)
  qed
  with Cons show ?case by simp
qed

lemma dedup_append:
  "dedup seen (xs @ ys) = dedup seen xs @ dedup (seen \<union> numbers (dedup seen xs)) ys"
proof (induction xs arbitrary: seen)
  case Nil
  then show ?case by (simp add: numbers_def)
next
  case (Cons r xs)
  show ?case
  proof (cases "keeps seen r")
    case True
    then obtain n where n: "number r = Some n" by (auto simp add: keeps_def split: option.splits)
    have "insert n seen \<union> numbers (dedup (insert n seen) xs) =
          seen \<union> numbers (r # dedup (insert n seen) xs)"
      using n by (auto simp add: numbers_def)
    with True n Cons show ?thesis by simp
  next
    case False
    with Cons show ?thesis by simp
  qed
qed

lemma dedup_idem: "dedup seen (dedup seen rs) = dedup seen rs"
proof (induction rs arbitrary: seen)
  case Nil
  then show ?case by simp
next
  case (Cons r rs)
  then show ?case by simp
qed

lemma dedup_covers:
  "r \<in> set rs \<Longrightarrow> number r = Some n \<Longrightarrow> n \<noteq> 0 \<Longrightarrow> n \<in> seen \<union> numbers (dedup seen rs)"
proof (induction rs arbitrary: seen)
  case Nil
  then show ?case by simp
next
  case (Cons a rs)
  show ?case
  proof (cases "r = a")
    case True
    with Cons.prems show ?thesis by (auto simp add: keeps_def numbers_def)
  next
    case False
    with Cons.prems have "r \<in> set rs" by simp
    from Cons.IH [OF this Cons.prems(2,3)]
    have "n \<in> seen \<union> numbers (dedup seen rs)"
      and "n \<in> insert (the (number a)) seen \<union> numbers (dedup (insert (the (number a)) seen) rs)"
      by blast+
    then show ?thesis
      by (cases "keeps seen a") (auto simp add: numbers_def keeps_def split: option.splits)
  qed
qed

lemma created_in_window_tag [simp]:
  "created_in_window parse p (tag b r) = created_in_window parse p r"
  by (simp add: created_in_window_def tag_def)

lemma bucket_of_created_iff:
  "bucket_of parse p r = Some b \<Longrightarrow> (b = Created) = created_in_window parse p r"
  by (auto simp add: bucket_of_def try_classify_def created_in_window_def
      split: option.splits if_splits sum.splits)

lemma partition_issues_origin:
  assumes "r \<in> set (partition_issues parse p st)"
  shows "\<exists>r0 b. r0 \<in> set st \<and> bucket_of parse p r0 = Some b \<and> r = tag (b = Created) r0 \<and> keeps {} r0"
proof -
  from assms dedup_subset
  have "r \<in> set (map (tag True) (filter (is_created parse p) st) @
                   map (tag False) (filter (is_updated parse p) st))" and k: "keeps {} r"
    unfolding partition_issues_eq by blast+
  then consider r0 where "r0 \<in> set st" "is_created parse p r0" "r = tag True r0"
    | r0 where "r0 \<in> set st" "is_updated parse p r0" "r = tag False r0"
    by auto
  then show ?thesis
  proof cases
    case 1
    with k show ?thesis by (auto simp add: is_created_def)
  next
    case 2
    with k have "bucket_of parse p r0 = Some Updated \<and> r = tag (Updated = Created) r0 \<and> keeps {} r0"
      by (simp add: is_updated_def)
    with 2 show ?thesis by blast
  qed
qed

text \<open>
  C6. The merged output is the list of created records followed by the list of updated
  records, deduplicated by number with the first occurrence winning. It never holds two
  records with the same number, and every record
  of the output is a record of the input whose \<^verbatim>\<open>_created_in_period\<close> key has been set to
  whether the record is an element of \<^verbatim>\<open>created_issues\<close>. That is the case exactly when its
  \<^verbatim>\<open>created_at\<close> lies in the period, whatever its \<^verbatim>\<open>updated_at\<close>: a record that
  qualifies for both buckets counts as created.
\<close>

theorem partition_issues_distinct_tagged:
  "partition_issues parse p st =
     dedup {} (map (tag True) (filter (is_created parse p) st) @
               map (tag False) (filter (is_updated parse p) st)) \<and>
   distinct (map number (partition_issues parse p st)) \<and>
   (\<forall>r\<in>set (partition_issues parse p st).
      (\<exists>i<length st.
         r = (st ! i)\<lparr>created_in_period := Some (i \<in> set (created_issues parse p st))\<rparr>) \<and>
      created_in_period r = Some (created_in_window parse p r))"
proof (intro conjI ballI)
  show "partition_issues parse p st =
     dedup {} (map (tag True) (filter (is_created parse p) st) @
               map (tag False) (filter (is_updated parse p) st))"
    by (rule partition_issues_eq)
next
  show "distinct (map number (partition_issues parse p st))"
    unfolding partition_issues_eq by (rule dedup_distinct)
next
  fix r
  assume "r \<in> set (partition_issues parse p st)"
  from partition_issues_origin [OF this] obtain r0 b where
    r0: "r0 \<in> set st" and b: "bucket_of parse p r0 = Some b" and r: "r = tag (b = Created) r0"
    by blast
  from r0 obtain i where i: "i < length st" "st ! i = r0"
    by (auto simp add: in_set_conv_nth)
  have "(i \<in> set (created_issues parse p st)) = (b = Created)"
    using i b by (auto simp add: created_issues_def)
  with i r show "\<exists>i<length st.
      r = (st ! i)\<lparr>created_in_period := Some (i \<in> set (created_issues parse p st))\<rparr>"
    by (auto simp add: tag_def)
  show "created_in_period r = Some (created_in_window parse p r)"
    using bucket_of_created_iff [OF b] by (simp add: r)
qed

theorem partition_issues_distinct_tagged_witness:
  "distinct (map number (partition_issues example_parser example_period
      [example_record (Some 7) (Some ''2024-05-01T08:00:00Z'') (Some ''2024-05-01T09:30:00Z''),
       example_record (Some 8) (Some ''2024-04-20T12:00:00Z'') (Some ''2024-05-01T09:30:00Z''),
       example_record (Some 7) (Some ''2024-04-20T12:00:00Z'') (Some ''2024-05-01T08:00:00Z'')])) \<and>
   map created_in_period (partition_issues example_parser example_period
      [example_record (Some 7) (Some ''2024-05-01T08:00:00Z'') (Some ''2024-05-01T09:30:00Z''),
       example_record (Some 8) (Some ''2024-04-20T12:00:00Z'') (Some ''2024-05-01T09:30:00Z''),
       example_record (Some 7) (Some ''2024-04-20T12:00:00Z'') (Some ''2024-05-01T08:00:00Z'')])
     = [Some True, Some False]"
proof -
  let ?st = "[example_record (Some 7) (Some ''2024-05-01T08:00:00Z'') (Some ''2024-05-01T09:30:00Z''),
       example_record (Some 8) (Some ''2024-04-20T12:00:00Z'') (Some ''2024-05-01T09:30:00Z''),
       example_record (Some 7) (Some ''2024-04-20T12:00:00Z'') (Some ''2024-05-01T08:00:00Z'')]"
  have "map created_in_period (partition_issues example_parser example_period ?st)
     = [Some True, Some False]"
    by code_simp
  moreover from partition_issues_distinct_tagged [of example_parser example_period ?st]
  have "distinct (map number (partition_issues example_parser example_period ?st))"
    by (rule conjunct1 [OF conjunct2])
  ultimately show ?thesis by (rule conjI [rotated])
qed

lemma bucket_cases:
  "bucket_of parse p r \<noteq> None \<Longrightarrow> is_created parse p r \<or> is_updated parse p r"
  by (cases "bucket_of parse p r"; cases "the (bucket_of parse p r)")
     (auto simp add: is_created_def is_updated_def)

text \<open>
  The first loop in terms of the timestamps. When \<^verbatim>\<open>created_at\<close> parses to the instant
  \<open>tc\<close> and \<^verbatim>\<open>updated_at\<close> is absent or empty (then \<open>tu\<close> is \<open>tc\<close>) or parses to the
  instant \<open>tu\<close>, the record goes to the created records if \<open>tc\<close> lies in the period, else
  to the updated records if \<open>tu\<close> lies in the period and differs from \<open>tc\<close>, and is
  dropped otherwise. A record with a missing, empty, unparsable or naive timestamp is
  dropped.
\<close>

lemma bucket_of_times:
  assumes "created_at r = Some c" and "c \<noteq> []" and "parse (replace_Z c) = Some (Aware tc)"
    and "if updated_at r = None \<or> updated_at r = Some [] then tu = tc
         else parse (replace_Z (the (updated_at r))) = Some (Aware tu)"
  shows "bucket_of parse p r =
         (if in_period p (Aware tc) = Inr True then Some Created
          else if in_period p (Aware tu) = Inr True \<and> tu \<noteq> tc then Some Updated
          else None)"
proof -
  have u: "(if updated_at r = None \<or> updated_at r = Some [] then Some (Aware tc)
            else parse (replace_Z (the (updated_at r)))) = Some (Aware tu)"
  proof (cases "updated_at r = None \<or> updated_at r = Some []")
    case True
    with assms(4) have "tu = tc" by (simp only: if_True)
    with True show ?thesis by (simp only: if_True)
  next
    case False
    with assms(4) show ?thesis by (simp only: if_False)
  qed
  have "try_classify parse p c (updated_at r) =
      Inr (if in_period p (Aware tc) = Inr True then Some Created
          else if in_period p (Aware tu) = Inr True \<and> tu \<noteq> tc then Some Updated
          else None)"
    unfolding try_classify_def assms(3) option.case u by (simp add: Let_def)
  then show ?thesis
    by (simp add: bucket_of_def assms(1,2))
qed

lemma bucket_of_no_created:
  "created_at r = None \<or> created_at r = Some [] \<Longrightarrow> bucket_of parse p r = None"
  by (auto simp add: bucket_of_def)

lemma bucket_of_created_unparsable:
  "created_at r = Some c \<Longrightarrow> parse (replace_Z c) = None \<or> parse (replace_Z c) = Some Naive \<Longrightarrow>
     bucket_of parse p r = None"
  by (auto simp add: bucket_of_def try_classify_def split: option.splits)

lemma bucket_of_updated_unparsable:
  "updated_at r = Some u \<Longrightarrow> u \<noteq> [] \<Longrightarrow>
     parse (replace_Z u) = None \<or> parse (replace_Z u) = Some Naive \<Longrightarrow>
     bucket_of parse p r = None"
  by (auto simp add: bucket_of_def try_classify_def split: option.splits sum.splits py_datetime.splits)

lemma first_loop_record_kept:
  assumes "r \<in> set st" and "bucket_of parse p r \<noteq> None" and "number r = Some n" and "n \<noteq> 0"
  shows "Some n \<in> set (map number (partition_issues parse p st)) \<and>
         ((\<forall>r'\<in>set st. number r' = Some n \<longrightarrow> r' = r) \<longrightarrow>
            r\<lparr>created_in_period := Some (created_in_window parse p r)\<rparr>
              \<in> set (partition_issues parse p st))"
proof -
  let ?b = "is_created parse p r"
  have "tag ?b r \<in> set (map (tag True) (filter (is_created parse p) st) @
                        map (tag False) (filter (is_updated parse p) st))"
    using assms(1) bucket_cases [OF assms(2)] by (cases ?b) auto
  moreover have "number (tag ?b r) = Some n"
    using assms(3) by simp
  ultimately have "n \<in> {} \<union> numbers (partition_issues parse p st)"
    unfolding partition_issues_eq using assms(4) by (rule dedup_covers)
  then have a: "Some n \<in> set (map number (partition_issues parse p st))"
    by (simp add: numbers_def)
  have b: "r\<lparr>created_in_period := Some (created_in_window parse p r)\<rparr>
              \<in> set (partition_issues parse p st)"
    if u: "\<forall>r'\<in>set st. number r' = Some n \<longrightarrow> r' = r"
  proof -
    from a obtain x where x: "x \<in> set (partition_issues parse p st)" "number x = Some n"
      by auto
    from partition_issues_origin [OF x(1)] obtain r0 b where
      r0: "r0 \<in> set st" "bucket_of parse p r0 = Some b" "x = tag (b = Created) r0"
      by blast
    with x(2) u have "r0 = r" by simp
    with r0 bucket_of_created_iff [of parse p r0 b] have "x = tag (created_in_window parse p r) r"
      by simp
    with x(1) show ?thesis by (simp add: tag_def)
  qed
  from a b show ?thesis by blast
qed

text \<open>
  C7, as amended. Take a record of the input whose \<^verbatim>\<open>created_at\<close> is a non-empty string
  that parses to an instant \<open>tc\<close>, whose \<^verbatim>\<open>updated_at\<close> is absent or empty (then \<open>tu\<close> is
  \<open>tc\<close>) or parses to an instant \<open>tu\<close>, and for which \<open>tc\<close> lies in the period, or \<open>tu\<close>
  lies in the period and differs from \<open>tc\<close>. The first loop keeps it, as created in the
  first case and as updated otherwise. If moreover its number is present and not zero,
  the output holds a record with that number; and when no other input record has this
  number, it is the record itself, tagged with whether it was created in the period.
  So a record is dropped only because a timestamp is missing, unparsable or without
  offset, because neither instant passes the test of the period, because its number is
  missing or zero, or because a record with the same number is kept in its place.
\<close>

theorem partition_issues_keeps:
  assumes "r \<in> set st"
    and "created_at r = Some c" and "c \<noteq> []" and "parse (replace_Z c) = Some (Aware tc)"
    and "if updated_at r = None \<or> updated_at r = Some [] then tu = tc
         else parse (replace_Z (the (updated_at r))) = Some (Aware tu)"
    and "in_period p (Aware tc) = Inr True \<or> in_period p (Aware tu) = Inr True \<and> tu \<noteq> tc"
    and "number r = Some n" and "n \<noteq> 0"
  shows "bucket_of parse p r =
           Some (if in_period p (Aware tc) = Inr True then Created else Updated) \<and>
         Some n \<in> set (map number (partition_issues parse p st)) \<and>
         ((\<forall>r'\<in>set st. number r' = Some n \<longrightarrow> r' = r) \<longrightarrow>
            r\<lparr>created_in_period := Some (in_period p (Aware tc) = Inr True)\<rparr>
              \<in> set (partition_issues parse p st))"
proof -
  have b: "bucket_of parse p r =
      Some (if in_period p (Aware tc) = Inr True then Created else Updated)"
    using assms(6) unfolding bucket_of_times [OF assms(2,3,4,5)] by auto
  then have n: "bucket_of parse p r \<noteq> None" by simp
  have w: "created_in_window parse p r = (in_period p (Aware tc) = Inr True)"
    using assms(2,4) by (simp add: created_in_window_def)
  from first_loop_record_kept [OF assms(1) n assms(7,8)] b show ?thesis
    unfolding w by blast
qed

theorem partition_issues_keeps_witness:
  "Some 8 \<in> set (map number (partition_issues example_parser example_period
      [example_record (Some 7) (Some ''2024-05-01T08:00:00Z'') None,
       example_record (Some 8) (Some ''2024-04-20T12:00:00Z'') (Some ''2024-05-01T09:30:00Z'')])) \<and>
   (example_record (Some 8) (Some ''2024-04-20T12:00:00Z'') (Some ''2024-05-01T09:30:00Z''))
      \<lparr>created_in_period := Some False\<rparr>
     \<in> set (partition_issues example_parser example_period
      [example_record (Some 7) (Some ''2024-05-01T08:00:00Z'') None,
       example_record (Some 8) (Some ''2024-04-20T12:00:00Z'') (Some ''2024-05-01T09:30:00Z'')])"
proof -
  let ?r = "example_record (Some 8) (Some ''2024-04-20T12:00:00Z'') (Some ''2024-05-01T09:30:00Z'')"
  let ?st = "[example_record (Some 7) (Some ''2024-05-01T08:00:00Z'') None, ?r]"
  have 1: "?r \<in> set ?st" by simp
  have 2: "created_at ?r = Some ''2024-04-20T12:00:00Z''" "''2024-04-20T12:00:00Z'' \<noteq> []"
    by (simp_all add: example_record_def)
  have 3: "example_parser (replace_Z ''2024-04-20T12:00:00Z'') = Some (Aware (- 900))"
    by (simp add: example_parser_def replace_Z_def)
  have 4: "if updated_at ?r = None \<or> updated_at ?r = Some [] then 200 = - 900
      else example_parser (replace_Z (the (updated_at ?r))) = Some (Aware 200)"
    by (simp add: example_record_def example_parser_def replace_Z_def)
  have 5: "in_period example_period (Aware (- 900)) = Inr True \<or>
      in_period example_period (Aware 200) = Inr True \<and> (200::int) \<noteq> - 900"
    by (simp add: example_period_def)
  have 6: "number ?r = Some 8" "(8::int) \<noteq> 0" by (simp_all add: example_record_def)
  have 7: "\<forall>r'\<in>set ?st. number r' = Some 8 \<longrightarrow> r' = ?r"
    by (simp add: example_record_def)
  have 8: "(in_period example_period (Aware (- 900)) = Inr True) = False"
    by (simp add: example_period_def)
  from partition_issues_keeps [OF 1 2 3 4 5 6] 7 show ?thesis
    unfolding 8 by blast
qed

text \<open>
  C7 as stated fails: a record created in the period whose number is zero (the default
  number of a discussion) is not in the output.
\<close>

theorem partition_issues_zero_number_counterexample:
  "bucket_of example_parser example_period
     (example_record (Some 0) (Some ''2024-05-01T08:00:00Z'') None) = Some Created \<and>
   partition_issues example_parser example_period
     [example_record (Some 0) (Some ''2024-05-01T08:00:00Z'') None] = []"
  by code_simp

text \<open>
  C8. Partitioning the output of the partitioner again, with the same period, returns
  that output unchanged: same records, same order, same tags.
\<close>

theorem partition_issues_idempotent:
  "partition_issues parse p (partition_issues parse p st) = partition_issues parse p st"
proof -
  let ?C = "is_created parse p" and ?U = "is_updated parse p"
  let ?TC = "map (tag True) (filter ?C st)" and ?TU = "map (tag False) (filter ?U st)"
  let ?A = "dedup {} ?TC"
  let ?B = "dedup (numbers ?A) ?TU"
  have out: "partition_issues parse p st = ?A @ ?B"
    unfolding partition_issues_eq dedup_append by simp
  have A: "\<forall>r\<in>set ?A. ?C r \<and> \<not> ?U r \<and> tag True r = r"
  proof
    fix r
    assume "r \<in> set ?A"
    with dedup_subset have "r \<in> set ?TC" by blast
    then obtain r0 where "r = tag True r0" "?C r0" by auto
    then show "?C r \<and> \<not> ?U r \<and> tag True r = r"
      by (simp add: is_created_def is_updated_def)
  qed
  have B: "\<forall>r\<in>set ?B. ?U r \<and> \<not> ?C r \<and> tag False r = r"
  proof
    fix r
    assume "r \<in> set ?B"
    with dedup_subset have "r \<in> set ?TU" by blast
    then obtain r0 where "r = tag False r0" "?U r0" by auto
    then show "?U r \<and> \<not> ?C r \<and> tag False r = r"
      by (simp add: is_created_def is_updated_def)
  qed
  have "filter ?C ?A = ?A" "filter ?C ?B = []"
    using A B by (auto simp only: filter_id_conv filter_empty_conv)
  then have fc: "filter ?C (?A @ ?B) = ?A"
    by (simp only: filter_append append_Nil2)
  have "filter ?U ?A = []" "filter ?U ?B = ?B"
    using A B by (auto simp only: filter_id_conv filter_empty_conv)
  then have fu: "filter ?U (?A @ ?B) = ?B"
    by (simp only: filter_append append_Nil)
  have ma: "map (tag True) ?A = ?A"
    using A by (intro map_idI) blast
  have mb: "map (tag False) ?B = ?B"
    using B by (intro map_idI) blast
  have "partition_issues parse p (?A @ ?B) = dedup {} (?A @ ?B)"
    unfolding partition_issues_eq [of parse p "?A @ ?B"] fc fu ma mb ..
  also have "\<dots> = ?A @ dedup ({} \<union> numbers (dedup {} ?A)) ?B"
    unfolding dedup_append dedup_idem ..
  also have "\<dots> = ?A @ ?B"
    unfolding dedup_idem by (simp only: Un_empty_left dedup_idem)
  finally show ?thesis
    unfolding out .
qed

subsection \<open>The external scorer\<close>

lemma throttle_positive:
  "0 < max_requests_per_minute c \<Longrightarrow>
     throttle c now later =
       Inr (c\<lparr>request_timestamps := filter (recent now) (request_timestamps c) @ [later]\<rparr>)"
  by (auto simp add: throttle_def Let_def)

text \<open>
  C9, as amended. With a positive request limit no operation of the scorer raises.
  Without an API key each returns its fixed placeholder and leaves the client as it
  was (no throttling, no call): zero scores and a notice in the comment for
  \<^verbatim>\<open>analyze_pr\<close>, the notice as summary for \<^verbatim>\<open>analyze_discussion\<close>, the empty summary for
  \<^verbatim>\<open>analyze_issue_summary\<close>. When the call fails, \<^verbatim>\<open>analyze_pr\<close> and
  \<^verbatim>\<open>analyze_discussion\<close> return a placeholder whose text field is the failure prefix
  followed by the text of the exception, and \<^verbatim>\<open>analyze_issue_summary\<close> returns the empty
  summary.
\<close>

theorem external_scorer_degrades:
  assumes "0 < max_requests_per_minute c"
  shows "(key_missing c \<longrightarrow>
            analyze_pr c now later out = (Inr (zero_scores msg_key_missing), c) \<and>
            analyze_discussion c now later out = (Inr (summary_only msg_key_missing), c) \<and>
            analyze_issue_summary c now later out = (Inr (summary_only []), c)) \<and>
         (\<not> key_missing c \<longrightarrow>
            fst (analyze_pr c now later (Raised exc)) = Inr (zero_scores (msg_call_failed @ exc)) \<and>
            fst (analyze_discussion c now later (Raised exc)) =
              Inr (summary_only (msg_call_failed @ exc)) \<and>
            fst (analyze_issue_summary c now later (Raised exc)) = Inr (summary_only [])) \<and>
         (\<exists>v1 v2 v3.
            fst (analyze_pr c now later out) = Inr v1 \<and>
            fst (analyze_discussion c now later out) = Inr v2 \<and>
            fst (analyze_issue_summary c now later out) = Inr v3)"
proof -
  note t = throttle_positive [OF assms]
  show ?thesis
    by (cases out)
       (simp_all add: analyze_pr_def analyze_discussion_def analyze_issue_summary_def t)
qed

theorem external_scorer_degrades_witness:
  "fst (analyze_pr example_client 100 101 (Raised (ascii ''timed out''))) =
     Inr (zero_scores (msg_call_failed @ ascii ''timed out'')) \<and>
   fst (analyze_discussion example_client 100 101 (Raised (ascii ''timed out''))) =
     Inr (summary_only (msg_call_failed @ ascii ''timed out'')) \<and>
   analyze_pr (example_client\<lparr>api_key := None\<rparr>) 100 101 (Returned JNull) =
     (Inr (zero_scores msg_key_missing), example_client\<lparr>api_key := None\<rparr>)"
  using external_scorer_degrades [of example_client 100 101 "Returned JNull" "ascii ''timed out''"]
    external_scorer_degrades [of "example_client\<lparr>api_key := None\<rparr>" 100 101 "Returned JNull" "[]"]
  by (simp add: example_client_def key_missing_def ascii_def)

text \<open>
  C9 as stated fails: when the call of \<^verbatim>\<open>analyze_issue_summary\<close> fails, the text field
  of the result is empty, whatever the reason was.
\<close>

theorem analyze_issue_summary_reason_counterexample:
  "fst (analyze_issue_summary example_client 100 101 (Raised (ascii ''timed out''))) =
     Inr (summary_only []) \<and>
   text_field ''summary'' (summary_only []) = Some []"
  by (simp add: analyze_issue_summary_def example_client_def key_missing_def ascii_def
      throttle_def summary_only_def text_field_def)

text \<open>
  Not part of the amended claim: with a limit of zero the throttle reads the first
  entry of an empty log, and the operation raises.
\<close>

lemma analyze_pr_zero_limit:
  "fst (analyze_pr (example_client\<lparr>max_requests_per_minute := 0\<rparr>) 100 101 out) = Inl IndexError"
  by (simp add: analyze_pr_def example_client_def key_missing_def ascii_def throttle_def)

subsection \<open>The analysis assembler\<close>

lemma example_pr_type: "detect_pr_type ''feat: add caching layer'' [] [] = ''feat''"
  by code_simp

text \<open>
  The end-to-end scenario of the specification: type \<open>feat\<close> with score 10, size
  \<open>large\<close> with score 9, priority P1, total 72.5, rated good.
\<close>

lemma analyze_pull_requests_scenario:
  "analyze_pull_requests int_of_str str_of [example_pr] [(42, all_sevens)] =
     Inr [\<lparr>a_number = 42, a_title = Some ''feat: add caching layer'', a_state = ''open'',
           a_labels = [], a_created_at = ''2024-05-01T08:00:00Z'', a_merged_at = None,
           a_author = ''octocat'', a_changed_files = 4, a_additions = 300, a_deletions = 10,
           a_commits = 2, a_pr_type = ''feat'', a_size_category = ''large'', a_priority = ''P1'',
           a_type_score = 10, a_size_score = 9, a_code_quality_score = 7,
           a_test_coverage_score = 7, a_doc_maintain_score = 7,
           a_compliance_security_score = 7, a_merge_history_score = 7,
           a_collaboration_score = 7, a_total_score = Fin (145 / 2), a_rating = rating_good,
           a_qwen_comment = take 500 (str_of (JStr (ascii ''solid'')))\<rparr>]"
proof -
  have t: "calc_total_score 10 9 7 7 7 7 7 7 = Inr (Fin (145 / 2))"
    using calc_total_score_exact [of 10 9 7 7 7 7 7 7] by simp
  show ?thesis
    by (simp add: analyze_pull_request_def example_pr_def all_sevens_def or_empty_def or_zero_def
        example_pr_type type_score_def priority_def size_category_and_score_def and_then_def
        score_of_def dict_get_def ascii_def t rating_def)
qed

text \<open>A PR without an answer of the scorer gets the score 0 on all six dimensions.\<close>

lemma analyze_pull_requests_missing:
  "analyze_pull_requests int_of_str str_of [example_pr] [] =
     Inr [\<lparr>a_number = 42, a_title = Some ''feat: add caching layer'', a_state = ''open'',
           a_labels = [], a_created_at = ''2024-05-01T08:00:00Z'', a_merged_at = None,
           a_author = ''octocat'', a_changed_files = 4, a_additions = 300, a_deletions = 10,
           a_commits = 2, a_pr_type = ''feat'', a_size_category = ''large'', a_priority = ''P1'',
           a_type_score = 10, a_size_score = 9, a_code_quality_score = 0,
           a_test_coverage_score = 0, a_doc_maintain_score = 0,
           a_compliance_security_score = 0, a_merge_history_score = 0,
           a_collaboration_score = 0, a_total_score = Fin (19 / 2), a_rating = rating_fair,
           a_qwen_comment = take 500 (str_of (JStr []))\<rparr>]"
proof -
  have t: "calc_total_score 10 9 0 0 0 0 0 0 = Inr (Fin (19 / 2))"
    using calc_total_score_exact [of 10 9 0 0 0 0 0 0] by simp
  show ?thesis
    by (simp add: analyze_pull_request_def example_pr_def or_empty_def or_zero_def
        example_pr_type type_score_def priority_def size_category_and_score_def and_then_def
        score_of_def dict_get_def ascii_def t rating_def)
qed

text \<open>
  C4 fails on the code. When the answer of the scorer holds \<^verbatim>\<open>null\<close> for a score, the
  built-in \<^verbatim>\<open>int\<close> raises \<^verbatim>\<open>TypeError\<close>; nothing in \<^verbatim>\<open>analyze_pull_requests\<close> catches
  it, so no analysis record is produced, for this PR or for any other.
\<close>

theorem analyze_pull_requests_null_score:
  "analyze_pull_requests int_of_str str_of [example_pr]
     [(42, JObj [(ascii ''code_quality_score'', JNull)])] = Inl TypeError"
  by (simp add: analyze_pull_request_def example_pr_def and_then_def score_of_def dict_get_def
      Let_def split_beta)

text \<open>
  The same happens when the answer is not a dictionary (here a list): the lookup of
  \<^verbatim>\<open>get\<close> raises \<^verbatim>\<open>AttributeError\<close>. A string that is not an integer literal raises
  \<^verbatim>\<open>ValueError\<close>.
\<close>

lemma analyze_pull_requests_list_answer:
  "analyze_pull_requests int_of_str str_of [example_pr] [(42, JArr [JInt 7])] = Inl AttributeError"
  by (simp add: analyze_pull_request_def example_pr_def and_then_def score_of_def dict_get_def
      Let_def split_beta)

lemma analyze_pull_requests_text_score:
  "int_of_str s = None \<Longrightarrow>
     analyze_pull_requests int_of_str str_of [example_pr]
       [(42, JObj [(ascii ''code_quality_score'', JStr s)])] = Inl ValueError"
  by (simp add: analyze_pull_request_def example_pr_def and_then_def score_of_def dict_get_def
      Let_def split_beta)

end
